theory Spec2Isabelle
  imports Main "HOL-Library.Word" "HOL-Library.Sublist" "HOL-Library.Code_Target_Numeral"
begin

unbundle bit_operations_syntax

section \<open>Data model\<close>

text \<open>
  A Node \<open>Buffer\<close> is a list of bytes. A JavaScript string is a list of UTF-16 code
  units, each a natural number; \<open>lit\<close> turns a literal of the source (ASCII) into such
  a list.
\<close>

type_synonym byte = "8 word"
type_synonym buffer = "byte list"
type_synonym jsstring = "nat list"

definition lit :: "string \<Rightarrow> jsstring" where
  "lit s = map of_char s"

text \<open>
  \<open>buffer.subarray(s, e)\<close> for \<open>0 \<le> s \<le> e\<close>: the bytes at the indices from \<open>s\<close> up to,
  not including, \<open>min e (length buffer)\<close>.
\<close>

definition subarray :: "buffer \<Rightarrow> nat \<Rightarrow> nat \<Rightarrow> buffer" where
  "subarray buf s e = take (e - s) (drop s buf)"

text \<open>
  \<open>buf.toString('ascii')\<close>: Node decodes every byte as the character whose code is
  the byte with its highest bit cleared (for decoding, \<open>'ascii'\<close> is \<open>'latin1'\<close>
  after unsetting bit 7 of each byte).
\<close>

definition toString_ascii :: "buffer \<Rightarrow> jsstring" where
  "toString_ascii buf = map (\<lambda>b. unat (b AND 0x7f)) buf"

section \<open>Image format sniffing: \<open>HttpService.detectImageExt\<close>\<close>

definition png_signature :: buffer where
  "png_signature = [0x89, 0x50, 0x4e, 0x47, 0x0d, 0x0a, 0x1a, 0x0a]"

definition detectImageExt :: "buffer \<Rightarrow> jsstring" where
  "detectImageExt buffer =
     (if length buffer \<ge> 3 \<and> buffer ! 0 = 0xff \<and> buffer ! 1 = 0xd8 \<and> buffer ! 2 = 0xff
        then lit ''.jpg''
      else if length buffer \<ge> 8 \<and> subarray buffer 0 8 = png_signature
        then lit ''.png''
      else if length buffer \<ge> 6 \<and>
              (let sig6 = toString_ascii (subarray buffer 0 6)
               in sig6 = lit ''GIF87a'' \<or> sig6 = lit ''GIF89a'')
        then lit ''.gif''
      else if length buffer \<ge> 12 \<and> toString_ascii (subarray buffer 0 4) = lit ''RIFF''
              \<and> toString_ascii (subarray buffer 8 12) = lit ''WEBP''
        then lit ''.webp''
      else if length buffer \<ge> 2 \<and> buffer ! 0 = 0x42 \<and> buffer ! 1 = 0x4d
        then lit ''.bmp''
      else lit ''.jpg'')"

text \<open>The bytes of an ASCII literal, for stating what a buffer starts with.\<close>

definition ascii_bytes :: "string \<Rightarrow> buffer" where
  "ascii_bytes s = map (\<lambda>c. of_nat (of_char c)) s"

section \<open>Keystream generation: \<open>WasmService.getKeystream\<close>\<close>

text \<open>
  The WebAssembly module is foreign code. What \<open>getKeystream\<close> can observe of
  \<open>new WxIsaac64(key)\<close>, \<open>isaac.generate(size)\<close> and \<open>isaac.delete()\<close> is the sequence
  of buffers the module hands to the host callback \<open>wasm_isaac_generate\<close> and whether one
  of the three calls throws; an \<open>isaac_run\<close> records both. The callback copies the
  region it is given into \<open>capturedKeystream\<close>, replacing what was there.
\<close>

datatype js_error =
    InitError jsstring
  | TypeError
  | EntryPointNotFound
  | Thrown jsstring
  | CaptureFailed

record isaac_run =
  emitted :: "buffer list"
  thrown :: "jsstring option"

type_synonym isaac_ctor = "jsstring \<Rightarrow> nat \<Rightarrow> isaac_run"

record asm_exports =
  asm_WxIsaac64 :: "isaac_ctor option"

record wasm_module =
  WxIsaac64 :: "isaac_ctor option"
  asm :: "asm_exports option"

record wasm_service =
  module :: "wasm_module option"
  wasmLoaded :: bool
  capturedKeystream :: "buffer option"

text \<open>
  \<open>init\<close>: nothing to do once the runtime is loaded; otherwise the loader either fails
  (files missing, script error) or leaves the module object in \<open>this.module\<close>. The loader's
  outcome is a parameter.
\<close>

definition init :: "(js_error + wasm_module) \<Rightarrow> wasm_service \<Rightarrow> js_error + wasm_service" where
  "init loader s =
     (if wasmLoaded s then Inr s
      else case loader of
             Inl e \<Rightarrow> Inl e
           | Inr m \<Rightarrow> Inr (s\<lparr>module := Some m, wasmLoaded := True\<rparr>))"

text \<open>The fallback that copies \<open>module.asm.WxIsaac64\<close> onto the module when it is missing there.\<close>

definition patch_entry_point :: "wasm_module \<Rightarrow> wasm_module" where
  "patch_entry_point m =
     (if WxIsaac64 m = None then
        (case asm m of
           Some a \<Rightarrow> (if asm_WxIsaac64 a \<noteq> None then m\<lparr>WxIsaac64 := asm_WxIsaac64 a\<rparr> else m)
         | None \<Rightarrow> m)
      else m)"

definition wasm_isaac_generate :: "wasm_service \<Rightarrow> buffer \<Rightarrow> wasm_service" where
  "wasm_isaac_generate s region = s\<lparr>capturedKeystream := Some region\<rparr>"

definition getKeystream ::
  "(js_error + wasm_module) \<Rightarrow> wasm_service \<Rightarrow> jsstring \<Rightarrow> nat \<Rightarrow> wasm_service \<times> (js_error + buffer)"
where
  "getKeystream loader s0 key sizeN =
     (case init loader s0 of
        Inl e \<Rightarrow> (s0, Inl e)
      | Inr s1 \<Rightarrow>
        (case module s1 of
           None \<Rightarrow> (s1, Inl TypeError)
         | Some m0 \<Rightarrow>
           let m = patch_entry_point m0; s2 = s1\<lparr>module := Some m\<rparr>
           in (case WxIsaac64 m of
                 None \<Rightarrow> (s2, Inl EntryPointNotFound)
               | Some ctor \<Rightarrow>
                 let s3 = s2\<lparr>capturedKeystream := None\<rparr>;
                     run = ctor key sizeN;
                     s4 = foldl wasm_isaac_generate s3 (emitted run)
                 in (case thrown run of
                       Some e \<Rightarrow> (s4, Inl (Thrown e))
                     | None \<Rightarrow>
                       (case capturedKeystream s4 of
                          Some captured \<Rightarrow> (s4, Inr (rev captured))
                        | None \<Rightarrow> (s4, Inl CaptureFailed))))))"

text \<open>The entry point \<open>getKeystream\<close> ends up calling: the module's own, else the one under \<open>asm\<close>.\<close>

definition entry_point :: "wasm_module \<Rightarrow> isaac_ctor option" where
  "entry_point m = WxIsaac64 (patch_entry_point m)"

section \<open>JavaScript strings\<close>

text \<open>
  The string operations of the runtime that the services call, on code-unit lists.
  \<open>trim\<close> removes the ECMAScript white space and line terminator characters from both
  ends.
\<close>

definition isWhiteSpace :: "nat \<Rightarrow> bool" where
  "isWhiteSpace c =
     (c \<in> {0x09, 0x0A, 0x0B, 0x0C, 0x0D, 0x20, 0xA0, 0x1680, 0x2028, 0x2029, 0x202F, 0x205F, 0x3000, 0xFEFF}
      \<or> (0x2000 \<le> c \<and> c \<le> 0x200A))"

definition trim :: "jsstring \<Rightarrow> jsstring" where
  "trim s = rev (dropWhile isWhiteSpace (rev (dropWhile isWhiteSpace s)))"

definition isUpper :: "nat \<Rightarrow> bool" where
  "isUpper c = (0x41 \<le> c \<and> c \<le> 0x5A)"

definition isLower :: "nat \<Rightarrow> bool" where
  "isLower c = (0x61 \<le> c \<and> c \<le> 0x7A)"

definition isDigit :: "nat \<Rightarrow> bool" where
  "isDigit c = (0x30 \<le> c \<and> c \<le> 0x39)"

definition isAlnum :: "nat \<Rightarrow> bool" where
  "isAlnum c = (isUpper c \<or> isLower c \<or> isDigit c)"

text \<open>The class \<open>\w\<close> of a regular expression: letters, digits and the underscore.\<close>

definition isWordChar :: "nat \<Rightarrow> bool" where
  "isWordChar c = (isAlnum c \<or> c = 0x5F)"

text \<open>What \<open>.\<close> does not match: the line terminators.\<close>

definition isLineTerminator :: "nat \<Rightarrow> bool" where
  "isLineTerminator c = (c \<in> {0x0A, 0x0D, 0x2028, 0x2029})"

text \<open>
  \<open>String.prototype.toLowerCase\<close> is the lower-case mapping of the Unicode character
  database (version 14.0 here), applied to the code points of the string. The tables give
  it: \<open>lower_table\<close> lists the code points with a single-character lower case, as
  \<open>(first, last, step, target)\<close> for a run \<open>first, first + step, ...\<close> up to \<open>last\<close> that
  maps onto the run from \<open>target\<close> with the same step; \<open>U+0130\<close> becomes \<open>i\<close> followed by
  \<open>U+0307\<close>; and \<open>U+03A3\<close>, capital sigma, becomes the final sigma \<open>U+03C2\<close> when a cased
  letter stands before it and none after it, case-ignorable characters between them not
  counting, and \<open>U+03C3\<close> otherwise. \<open>case_ignorable_table\<close> and \<open>cased_table\<close> list, as
  \<open>(first, last)\<close>, the code points that are case-ignorable, and those that are cased and
  not case-ignorable. Every table is in ascending order.
\<close>

definition lower_table :: "(nat \<times> nat \<times> nat \<times> nat) list" where
  "lower_table =
     [
      (0x41, 0x5A, 1, 0x61), (0xC0, 0xD6, 1, 0xE0), (0xD8, 0xDE, 1, 0xF8),
      (0x100, 0x12E, 2, 0x101), (0x132, 0x136, 2, 0x133), (0x139, 0x147, 2, 0x13A),
      (0x14A, 0x176, 2, 0x14B), (0x178, 0x178, 1, 0xFF), (0x179, 0x17D, 2, 0x17A),
      (0x181, 0x181, 1, 0x253), (0x182, 0x184, 2, 0x183), (0x186, 0x186, 1, 0x254),
      (0x187, 0x187, 1, 0x188), (0x189, 0x18A, 1, 0x256), (0x18B, 0x18B, 1, 0x18C),
      (0x18E, 0x18E, 1, 0x1DD), (0x18F, 0x18F, 1, 0x259), (0x190, 0x190, 1, 0x25B),
      (0x191, 0x191, 1, 0x192), (0x193, 0x193, 1, 0x260), (0x194, 0x194, 1, 0x263),
      (0x196, 0x196, 1, 0x269), (0x197, 0x197, 1, 0x268), (0x198, 0x198, 1, 0x199),
      (0x19C, 0x19C, 1, 0x26F), (0x19D, 0x19D, 1, 0x272), (0x19F, 0x19F, 1, 0x275),
      (0x1A0, 0x1A4, 2, 0x1A1), (0x1A6, 0x1A6, 1, 0x280), (0x1A7, 0x1A7, 1, 0x1A8),
      (0x1A9, 0x1A9, 1, 0x283), (0x1AC, 0x1AC, 1, 0x1AD), (0x1AE, 0x1AE, 1, 0x288),
      (0x1AF, 0x1AF, 1, 0x1B0), (0x1B1, 0x1B2, 1, 0x28A), (0x1B3, 0x1B5, 2, 0x1B4),
      (0x1B7, 0x1B7, 1, 0x292), (0x1B8, 0x1B8, 1, 0x1B9), (0x1BC, 0x1BC, 1, 0x1BD),
      (0x1C4, 0x1C4, 1, 0x1C6), (0x1C5, 0x1C5, 1, 0x1C6), (0x1C7, 0x1C7, 1, 0x1C9),
      (0x1C8, 0x1C8, 1, 0x1C9), (0x1CA, 0x1CA, 1, 0x1CC), (0x1CB, 0x1DB, 2, 0x1CC),
      (0x1DE, 0x1EE, 2, 0x1DF), (0x1F1, 0x1F1, 1, 0x1F3), (0x1F2, 0x1F4, 2, 0x1F3),
      (0x1F6, 0x1F6, 1, 0x195), (0x1F7, 0x1F7, 1, 0x1BF), (0x1F8, 0x21E, 2, 0x1F9),
      (0x220, 0x220, 1, 0x19E), (0x222, 0x232, 2, 0x223), (0x23A, 0x23A, 1, 0x2C65),
      (0x23B, 0x23B, 1, 0x23C), (0x23D, 0x23D, 1, 0x19A), (0x23E, 0x23E, 1, 0x2C66),
      (0x241, 0x241, 1, 0x242), (0x243, 0x243, 1, 0x180), (0x244, 0x244, 1, 0x289),
      (0x245, 0x245, 1, 0x28C), (0x246, 0x24E, 2, 0x247), (0x370, 0x372, 2, 0x371),
      (0x376, 0x376, 1, 0x377), (0x37F, 0x37F, 1, 0x3F3), (0x386, 0x386, 1, 0x3AC),
      (0x388, 0x38A, 1, 0x3AD), (0x38C, 0x38C, 1, 0x3CC), (0x38E, 0x38F, 1, 0x3CD),
      (0x391, 0x3A1, 1, 0x3B1), (0x3A3, 0x3AB, 1, 0x3C3), (0x3CF, 0x3CF, 1, 0x3D7),
      (0x3D8, 0x3EE, 2, 0x3D9), (0x3F4, 0x3F4, 1, 0x3B8), (0x3F7, 0x3F7, 1, 0x3F8),
      (0x3F9, 0x3F9, 1, 0x3F2), (0x3FA, 0x3FA, 1, 0x3FB), (0x3FD, 0x3FF, 1, 0x37B),
      (0x400, 0x40F, 1, 0x450), (0x410, 0x42F, 1, 0x430), (0x460, 0x480, 2, 0x461),
      (0x48A, 0x4BE, 2, 0x48B), (0x4C0, 0x4C0, 1, 0x4CF), (0x4C1, 0x4CD, 2, 0x4C2),
      (0x4D0, 0x52E, 2, 0x4D1), (0x531, 0x556, 1, 0x561), (0x10A0, 0x10C5, 1, 0x2D00),
      (0x10C7, 0x10C7, 1, 0x2D27), (0x10CD, 0x10CD, 1, 0x2D2D), (0x13A0, 0x13EF, 1, 0xAB70),
      (0x13F0, 0x13F5, 1, 0x13F8), (0x1C90, 0x1CBA, 1, 0x10D0), (0x1CBD, 0x1CBF, 1, 0x10FD),
      (0x1E00, 0x1E94, 2, 0x1E01), (0x1E9E, 0x1E9E, 1, 0xDF), (0x1EA0, 0x1EFE, 2, 0x1EA1),
      (0x1F08, 0x1F0F, 1, 0x1F00), (0x1F18, 0x1F1D, 1, 0x1F10), (0x1F28, 0x1F2F, 1, 0x1F20),
      (0x1F38, 0x1F3F, 1, 0x1F30), (0x1F48, 0x1F4D, 1, 0x1F40), (0x1F59, 0x1F5F, 2, 0x1F51),
      (0x1F68, 0x1F6F, 1, 0x1F60), (0x1F88, 0x1F8F, 1, 0x1F80), (0x1F98, 0x1F9F, 1, 0x1F90),
      (0x1FA8, 0x1FAF, 1, 0x1FA0), (0x1FB8, 0x1FB9, 1, 0x1FB0), (0x1FBA, 0x1FBB, 1, 0x1F70),
      (0x1FBC, 0x1FBC, 1, 0x1FB3), (0x1FC8, 0x1FCB, 1, 0x1F72), (0x1FCC, 0x1FCC, 1, 0x1FC3),
      (0x1FD8, 0x1FD9, 1, 0x1FD0), (0x1FDA, 0x1FDB, 1, 0x1F76), (0x1FE8, 0x1FE9, 1, 0x1FE0),
      (0x1FEA, 0x1FEB, 1, 0x1F7A), (0x1FEC, 0x1FEC, 1, 0x1FE5), (0x1FF8, 0x1FF9, 1, 0x1F78),
      (0x1FFA, 0x1FFB, 1, 0x1F7C), (0x1FFC, 0x1FFC, 1, 0x1FF3), (0x2126, 0x2126, 1, 0x3C9),
      (0x212A, 0x212A, 1, 0x6B), (0x212B, 0x212B, 1, 0xE5), (0x2132, 0x2132, 1, 0x214E),
      (0x2160, 0x216F, 1, 0x2170), (0x2183, 0x2183, 1, 0x2184), (0x24B6, 0x24CF, 1, 0x24D0),
      (0x2C00, 0x2C2F, 1, 0x2C30), (0x2C60, 0x2C60, 1, 0x2C61), (0x2C62, 0x2C62, 1, 0x26B),
      (0x2C63, 0x2C63, 1, 0x1D7D), (0x2C64, 0x2C64, 1, 0x27D), (0x2C67, 0x2C6B, 2, 0x2C68),
      (0x2C6D, 0x2C6D, 1, 0x251), (0x2C6E, 0x2C6E, 1, 0x271), (0x2C6F, 0x2C6F, 1, 0x250),
      (0x2C70, 0x2C70, 1, 0x252), (0x2C72, 0x2C72, 1, 0x2C73), (0x2C75, 0x2C75, 1, 0x2C76),
      (0x2C7E, 0x2C7F, 1, 0x23F), (0x2C80, 0x2CE2, 2, 0x2C81), (0x2CEB, 0x2CED, 2, 0x2CEC),
      (0x2CF2, 0x2CF2, 1, 0x2CF3), (0xA640, 0xA66C, 2, 0xA641), (0xA680, 0xA69A, 2, 0xA681),
      (0xA722, 0xA72E, 2, 0xA723), (0xA732, 0xA76E, 2, 0xA733), (0xA779, 0xA77B, 2, 0xA77A),
      (0xA77D, 0xA77D, 1, 0x1D79), (0xA77E, 0xA786, 2, 0xA77F), (0xA78B, 0xA78B, 1, 0xA78C),
      (0xA78D, 0xA78D, 1, 0x265), (0xA790, 0xA792, 2, 0xA791), (0xA796, 0xA7A8, 2, 0xA797),
      (0xA7AA, 0xA7AA, 1, 0x266), (0xA7AB, 0xA7AB, 1, 0x25C), (0xA7AC, 0xA7AC, 1, 0x261),
      (0xA7AD, 0xA7AD, 1, 0x26C), (0xA7AE, 0xA7AE, 1, 0x26A), (0xA7B0, 0xA7B0, 1, 0x29E),
      (0xA7B1, 0xA7B1, 1, 0x287), (0xA7B2, 0xA7B2, 1, 0x29D), (0xA7B3, 0xA7B3, 1, 0xAB53),
      (0xA7B4, 0xA7C2, 2, 0xA7B5), (0xA7C4, 0xA7C4, 1, 0xA794), (0xA7C5, 0xA7C5, 1, 0x282),
      (0xA7C6, 0xA7C6, 1, 0x1D8E), (0xA7C7, 0xA7C9, 2, 0xA7C8), (0xA7D0, 0xA7D0, 1, 0xA7D1),
      (0xA7D6, 0xA7D8, 2, 0xA7D7), (0xA7F5, 0xA7F5, 1, 0xA7F6), (0xFF21, 0xFF3A, 1, 0xFF41),
      (0x10400, 0x10427, 1, 0x10428), (0x104B0, 0x104D3, 1, 0x104D8),
      (0x10570, 0x1057A, 1, 0x10597), (0x1057C, 0x1058A, 1, 0x105A3),
      (0x1058C, 0x10592, 1, 0x105B3), (0x10594, 0x10595, 1, 0x105BB),
      (0x10C80, 0x10CB2, 1, 0x10CC0), (0x118A0, 0x118BF, 1, 0x118C0),
      (0x16E40, 0x16E5F, 1, 0x16E60), (0x1E900, 0x1E921, 1, 0x1E922)
     ]"

definition case_ignorable_table :: "(nat \<times> nat) list" where
  "case_ignorable_table =
     [
      (0x27, 0x27), (0x2E, 0x2E), (0x3A, 0x3A), (0x5E, 0x5E), (0x60, 0x60), (0xA8, 0xA8),
      (0xAD, 0xAD), (0xAF, 0xAF), (0xB4, 0xB4), (0xB7, 0xB8), (0x2B0, 0x36F), (0x374, 0x375),
      (0x37A, 0x37A), (0x384, 0x385), (0x387, 0x387), (0x483, 0x489), (0x559, 0x559),
      (0x55F, 0x55F), (0x591, 0x5BD), (0x5BF, 0x5BF), (0x5C1, 0x5C2), (0x5C4, 0x5C5),
      (0x5C7, 0x5C7), (0x5F4, 0x5F4), (0x600, 0x605), (0x610, 0x61A), (0x61C, 0x61C),
      (0x640, 0x640), (0x64B, 0x65F), (0x670, 0x670), (0x6D6, 0x6DD), (0x6DF, 0x6E8),
      (0x6EA, 0x6ED), (0x70F, 0x70F), (0x711, 0x711), (0x730, 0x74A), (0x7A6, 0x7B0),
      (0x7EB, 0x7F5), (0x7FA, 0x7FA), (0x7FD, 0x7FD), (0x816, 0x82D), (0x859, 0x85B),
      (0x888, 0x888), (0x890, 0x891), (0x898, 0x89F), (0x8C9, 0x902), (0x93A, 0x93A),
      (0x93C, 0x93C), (0x941, 0x948), (0x94D, 0x94D), (0x951, 0x957), (0x962, 0x963),
      (0x971, 0x971), (0x981, 0x981), (0x9BC, 0x9BC), (0x9C1, 0x9C4), (0x9CD, 0x9CD),
      (0x9E2, 0x9E3), (0x9FE, 0x9FE), (0xA01, 0xA02), (0xA3C, 0xA3C), (0xA41, 0xA42),
      (0xA47, 0xA48), (0xA4B, 0xA4D), (0xA51, 0xA51), (0xA70, 0xA71), (0xA75, 0xA75),
      (0xA81, 0xA82), (0xABC, 0xABC), (0xAC1, 0xAC5), (0xAC7, 0xAC8), (0xACD, 0xACD),
      (0xAE2, 0xAE3), (0xAFA, 0xAFF), (0xB01, 0xB01), (0xB3C, 0xB3C), (0xB3F, 0xB3F),
      (0xB41, 0xB44), (0xB4D, 0xB4D), (0xB55, 0xB56), (0xB62, 0xB63), (0xB82, 0xB82),
      (0xBC0, 0xBC0), (0xBCD, 0xBCD), (0xC00, 0xC00), (0xC04, 0xC04), (0xC3C, 0xC3C),
      (0xC3E, 0xC40), (0xC46, 0xC48), (0xC4A, 0xC4D), (0xC55, 0xC56), (0xC62, 0xC63),
      (0xC81, 0xC81), (0xCBC, 0xCBC), (0xCBF, 0xCBF), (0xCC6, 0xCC6), (0xCCC, 0xCCD),
      (0xCE2, 0xCE3), (0xD00, 0xD01), (0xD3B, 0xD3C), (0xD41, 0xD44), (0xD4D, 0xD4D),
      (0xD62, 0xD63), (0xD81, 0xD81), (0xDCA, 0xDCA), (0xDD2, 0xDD4), (0xDD6, 0xDD6),
      (0xE31, 0xE31), (0xE34, 0xE3A), (0xE46, 0xE4E), (0xEB1, 0xEB1), (0xEB4, 0xEBC),
      (0xEC6, 0xEC6), (0xEC8, 0xECD), (0xF18, 0xF19), (0xF35, 0xF35), (0xF37, 0xF37),
      (0xF39, 0xF39), (0xF71, 0xF7E), (0xF80, 0xF84), (0xF86, 0xF87), (0xF8D, 0xF97),
      (0xF99, 0xFBC), (0xFC6, 0xFC6), (0x102D, 0x1030), (0x1032, 0x1037), (0x1039, 0x103A),
      (0x103D, 0x103E), (0x1058, 0x1059), (0x105E, 0x1060), (0x1071, 0x1074),
      (0x1082, 0x1082), (0x1085, 0x1086), (0x108D, 0x108D), (0x109D, 0x109D),
      (0x10FC, 0x10FC), (0x135D, 0x135F), (0x1712, 0x1714), (0x1732, 0x1733),
      (0x1752, 0x1753), (0x1772, 0x1773), (0x17B4, 0x17B5), (0x17B7, 0x17BD),
      (0x17C6, 0x17C6), (0x17C9, 0x17D3), (0x17D7, 0x17D7), (0x17DD, 0x17DD),
      (0x180B, 0x180F), (0x1843, 0x1843), (0x1885, 0x1886), (0x18A9, 0x18A9),
      (0x1920, 0x1922), (0x1927, 0x1928), (0x1932, 0x1932), (0x1939, 0x193B),
      (0x1A17, 0x1A18), (0x1A1B, 0x1A1B), (0x1A56, 0x1A56), (0x1A58, 0x1A5E),
      (0x1A60, 0x1A60), (0x1A62, 0x1A62), (0x1A65, 0x1A6C), (0x1A73, 0x1A7C),
      (0x1A7F, 0x1A7F), (0x1AA7, 0x1AA7), (0x1AB0, 0x1ACE), (0x1B00, 0x1B03),
      (0x1B34, 0x1B34), (0x1B36, 0x1B3A), (0x1B3C, 0x1B3C), (0x1B42, 0x1B42),
      (0x1B6B, 0x1B73), (0x1B80, 0x1B81), (0x1BA2, 0x1BA5), (0x1BA8, 0x1BA9),
      (0x1BAB, 0x1BAD), (0x1BE6, 0x1BE6), (0x1BE8, 0x1BE9), (0x1BED, 0x1BED),
      (0x1BEF, 0x1BF1), (0x1C2C, 0x1C33), (0x1C36, 0x1C37), (0x1C78, 0x1C7D),
      (0x1CD0, 0x1CD2), (0x1CD4, 0x1CE0), (0x1CE2, 0x1CE8), (0x1CED, 0x1CED),
      (0x1CF4, 0x1CF4), (0x1CF8, 0x1CF9), (0x1D2C, 0x1D6A), (0x1D78, 0x1D78),
      (0x1D9B, 0x1DFF), (0x1FBD, 0x1FBD), (0x1FBF, 0x1FC1), (0x1FCD, 0x1FCF),
      (0x1FDD, 0x1FDF), (0x1FED, 0x1FEF), (0x1FFD, 0x1FFE), (0x200B, 0x200F),
      (0x2018, 0x2019), (0x2024, 0x2024), (0x2027, 0x2027), (0x202A, 0x202E),
      (0x2060, 0x2064), (0x2066, 0x206F), (0x2071, 0x2071), (0x207F, 0x207F),
      (0x2090, 0x209C), (0x20D0, 0x20F0), (0x2C7C, 0x2C7D), (0x2CEF, 0x2CF1),
      (0x2D6F, 0x2D6F), (0x2D7F, 0x2D7F), (0x2DE0, 0x2DFF), (0x2E2F, 0x2E2F),
      (0x3005, 0x3005), (0x302A, 0x302D), (0x3031, 0x3035), (0x303B, 0x303B),
      (0x3099, 0x309E), (0x30FC, 0x30FE), (0xA015, 0xA015), (0xA4F8, 0xA4FD),
      (0xA60C, 0xA60C), (0xA66F, 0xA672), (0xA674, 0xA67D), (0xA67F, 0xA67F),
      (0xA69C, 0xA69F), (0xA6F0, 0xA6F1), (0xA700, 0xA721), (0xA770, 0xA770),
      (0xA788, 0xA78A), (0xA7F2, 0xA7F4), (0xA7F8, 0xA7F9), (0xA802, 0xA802),
      (0xA806, 0xA806), (0xA80B, 0xA80B), (0xA825, 0xA826), (0xA82C, 0xA82C),
      (0xA8C4, 0xA8C5), (0xA8E0, 0xA8F1), (0xA8FF, 0xA8FF), (0xA926, 0xA92D),
      (0xA947, 0xA951), (0xA980, 0xA982), (0xA9B3, 0xA9B3), (0xA9B6, 0xA9B9),
      (0xA9BC, 0xA9BD), (0xA9CF, 0xA9CF), (0xA9E5, 0xA9E6), (0xAA29, 0xAA2E),
      (0xAA31, 0xAA32), (0xAA35, 0xAA36), (0xAA43, 0xAA43), (0xAA4C, 0xAA4C),
      (0xAA70, 0xAA70), (0xAA7C, 0xAA7C), (0xAAB0, 0xAAB0), (0xAAB2, 0xAAB4),
      (0xAAB7, 0xAAB8), (0xAABE, 0xAABF), (0xAAC1, 0xAAC1), (0xAADD, 0xAADD),
      (0xAAEC, 0xAAED), (0xAAF3, 0xAAF4), (0xAAF6, 0xAAF6), (0xAB5B, 0xAB5F),
      (0xAB69, 0xAB6B), (0xABE5, 0xABE5), (0xABE8, 0xABE8), (0xABED, 0xABED),
      (0xFB1E, 0xFB1E), (0xFBB2, 0xFBC2), (0xFE00, 0xFE0F), (0xFE13, 0xFE13),
      (0xFE20, 0xFE2F), (0xFE52, 0xFE52), (0xFE55, 0xFE55), (0xFEFF, 0xFEFF),
      (0xFF07, 0xFF07), (0xFF0E, 0xFF0E), (0xFF1A, 0xFF1A), (0xFF3E, 0xFF3E),
      (0xFF40, 0xFF40), (0xFF70, 0xFF70), (0xFF9E, 0xFF9F), (0xFFE3, 0xFFE3),
      (0xFFF9, 0xFFFB), (0x101FD, 0x101FD), (0x102E0, 0x102E0), (0x10376, 0x1037A),
      (0x10780, 0x10785), (0x10787, 0x107B0), (0x107B2, 0x107BA), (0x10A01, 0x10A03),
      (0x10A05, 0x10A06), (0x10A0C, 0x10A0F), (0x10A38, 0x10A3A), (0x10A3F, 0x10A3F),
      (0x10AE5, 0x10AE6), (0x10D24, 0x10D27), (0x10EAB, 0x10EAC), (0x10F46, 0x10F50),
      (0x10F82, 0x10F85), (0x11001, 0x11001), (0x11038, 0x11046), (0x11070, 0x11070),
      (0x11073, 0x11074), (0x1107F, 0x11081), (0x110B3, 0x110B6), (0x110B9, 0x110BA),
      (0x110BD, 0x110BD), (0x110C2, 0x110C2), (0x110CD, 0x110CD), (0x11100, 0x11102),
      (0x11127, 0x1112B), (0x1112D, 0x11134), (0x11173, 0x11173), (0x11180, 0x11181),
      (0x111B6, 0x111BE), (0x111C9, 0x111CC), (0x111CF, 0x111CF), (0x1122F, 0x11231),
      (0x11234, 0x11234), (0x11236, 0x11237), (0x1123E, 0x1123E), (0x112DF, 0x112DF),
      (0x112E3, 0x112EA), (0x11300, 0x11301), (0x1133B, 0x1133C), (0x11340, 0x11340),
      (0x11366, 0x1136C), (0x11370, 0x11374), (0x11438, 0x1143F), (0x11442, 0x11444),
      (0x11446, 0x11446), (0x1145E, 0x1145E), (0x114B3, 0x114B8), (0x114BA, 0x114BA),
      (0x114BF, 0x114C0), (0x114C2, 0x114C3), (0x115B2, 0x115B5), (0x115BC, 0x115BD),
      (0x115BF, 0x115C0), (0x115DC, 0x115DD), (0x11633, 0x1163A), (0x1163D, 0x1163D),
      (0x1163F, 0x11640), (0x116AB, 0x116AB), (0x116AD, 0x116AD), (0x116B0, 0x116B5),
      (0x116B7, 0x116B7), (0x1171D, 0x1171F), (0x11722, 0x11725), (0x11727, 0x1172B),
      (0x1182F, 0x11837), (0x11839, 0x1183A), (0x1193B, 0x1193C), (0x1193E, 0x1193E),
      (0x11943, 0x11943), (0x119D4, 0x119D7), (0x119DA, 0x119DB), (0x119E0, 0x119E0),
      (0x11A01, 0x11A0A), (0x11A33, 0x11A38), (0x11A3B, 0x11A3E), (0x11A47, 0x11A47),
      (0x11A51, 0x11A56), (0x11A59, 0x11A5B), (0x11A8A, 0x11A96), (0x11A98, 0x11A99),
      (0x11C30, 0x11C36), (0x11C38, 0x11C3D), (0x11C3F, 0x11C3F), (0x11C92, 0x11CA7),
      (0x11CAA, 0x11CB0), (0x11CB2, 0x11CB3), (0x11CB5, 0x11CB6), (0x11D31, 0x11D36),
      (0x11D3A, 0x11D3A), (0x11D3C, 0x11D3D), (0x11D3F, 0x11D45), (0x11D47, 0x11D47),
      (0x11D90, 0x11D91), (0x11D95, 0x11D95), (0x11D97, 0x11D97), (0x11EF3, 0x11EF4),
      (0x13430, 0x13438), (0x16AF0, 0x16AF4), (0x16B30, 0x16B36), (0x16B40, 0x16B43),
      (0x16F4F, 0x16F4F), (0x16F8F, 0x16F9F), (0x16FE0, 0x16FE1), (0x16FE3, 0x16FE4),
      (0x1AFF0, 0x1AFF3), (0x1AFF5, 0x1AFFB), (0x1AFFD, 0x1AFFE), (0x1BC9D, 0x1BC9E),
      (0x1BCA0, 0x1BCA3), (0x1CF00, 0x1CF2D), (0x1CF30, 0x1CF46), (0x1D167, 0x1D169),
      (0x1D173, 0x1D182), (0x1D185, 0x1D18B), (0x1D1AA, 0x1D1AD), (0x1D242, 0x1D244),
      (0x1DA00, 0x1DA36), (0x1DA3B, 0x1DA6C), (0x1DA75, 0x1DA75), (0x1DA84, 0x1DA84),
      (0x1DA9B, 0x1DA9F), (0x1DAA1, 0x1DAAF), (0x1E000, 0x1E006), (0x1E008, 0x1E018),
      (0x1E01B, 0x1E021), (0x1E023, 0x1E024), (0x1E026, 0x1E02A), (0x1E130, 0x1E13D),
      (0x1E2AE, 0x1E2AE), (0x1E2EC, 0x1E2EF), (0x1E8D0, 0x1E8D6), (0x1E944, 0x1E94B),
      (0x1F3FB, 0x1F3FF), (0xE0001, 0xE0001), (0xE0020, 0xE007F), (0xE0100, 0xE01EF)
     ]"

definition cased_table :: "(nat \<times> nat) list" where
  "cased_table =
     [
      (0x41, 0x5A), (0x61, 0x7A), (0xAA, 0xAA), (0xB5, 0xB5), (0xBA, 0xBA), (0xC0, 0xD6),
      (0xD8, 0xF6), (0xF8, 0x1BA), (0x1BC, 0x1BF), (0x1C4, 0x293), (0x295, 0x2AF),
      (0x370, 0x373), (0x376, 0x377), (0x37B, 0x37D), (0x37F, 0x37F), (0x386, 0x386),
      (0x388, 0x38A), (0x38C, 0x38C), (0x38E, 0x3A1), (0x3A3, 0x3F5), (0x3F7, 0x481),
      (0x48A, 0x52F), (0x531, 0x556), (0x560, 0x588), (0x10A0, 0x10C5), (0x10C7, 0x10C7),
      (0x10CD, 0x10CD), (0x10D0, 0x10FA), (0x10FD, 0x10FF), (0x13A0, 0x13F5),
      (0x13F8, 0x13FD), (0x1C80, 0x1C88), (0x1C90, 0x1CBA), (0x1CBD, 0x1CBF),
      (0x1D00, 0x1D2B), (0x1D6B, 0x1D77), (0x1D79, 0x1D9A), (0x1E00, 0x1F15),
      (0x1F18, 0x1F1D), (0x1F20, 0x1F45), (0x1F48, 0x1F4D), (0x1F50, 0x1F57),
      (0x1F59, 0x1F59), (0x1F5B, 0x1F5B), (0x1F5D, 0x1F5D), (0x1F5F, 0x1F7D),
      (0x1F80, 0x1FB4), (0x1FB6, 0x1FBC), (0x1FBE, 0x1FBE), (0x1FC2, 0x1FC4),
      (0x1FC6, 0x1FCC), (0x1FD0, 0x1FD3), (0x1FD6, 0x1FDB), (0x1FE0, 0x1FEC),
      (0x1FF2, 0x1FF4), (0x1FF6, 0x1FFC), (0x2102, 0x2102), (0x2107, 0x2107),
      (0x210A, 0x2113), (0x2115, 0x2115), (0x2119, 0x211D), (0x2124, 0x2124),
      (0x2126, 0x2126), (0x2128, 0x2128), (0x212A, 0x212D), (0x212F, 0x2134),
      (0x2139, 0x2139), (0x213C, 0x213F), (0x2145, 0x2149), (0x214E, 0x214E),
      (0x2160, 0x217F), (0x2183, 0x2184), (0x24B6, 0x24E9), (0x2C00, 0x2C7B),
      (0x2C7E, 0x2CE4), (0x2CEB, 0x2CEE), (0x2CF2, 0x2CF3), (0x2D00, 0x2D25),
      (0x2D27, 0x2D27), (0x2D2D, 0x2D2D), (0xA640, 0xA66D), (0xA680, 0xA69B),
      (0xA722, 0xA76F), (0xA771, 0xA787), (0xA78B, 0xA78E), (0xA790, 0xA7CA),
      (0xA7D0, 0xA7D1), (0xA7D3, 0xA7D3), (0xA7D5, 0xA7D9), (0xA7F5, 0xA7F6),
      (0xA7FA, 0xA7FA), (0xAB30, 0xAB5A), (0xAB60, 0xAB68), (0xAB70, 0xABBF),
      (0xFB00, 0xFB06), (0xFB13, 0xFB17), (0xFF21, 0xFF3A), (0xFF41, 0xFF5A),
      (0x10400, 0x1044F), (0x104B0, 0x104D3), (0x104D8, 0x104FB), (0x10570, 0x1057A),
      (0x1057C, 0x1058A), (0x1058C, 0x10592), (0x10594, 0x10595), (0x10597, 0x105A1),
      (0x105A3, 0x105B1), (0x105B3, 0x105B9), (0x105BB, 0x105BC), (0x10C80, 0x10CB2),
      (0x10CC0, 0x10CF2), (0x118A0, 0x118DF), (0x16E40, 0x16E7F), (0x1D400, 0x1D454),
      (0x1D456, 0x1D49C), (0x1D49E, 0x1D49F), (0x1D4A2, 0x1D4A2), (0x1D4A5, 0x1D4A6),
      (0x1D4A9, 0x1D4AC), (0x1D4AE, 0x1D4B9), (0x1D4BB, 0x1D4BB), (0x1D4BD, 0x1D4C3),
      (0x1D4C5, 0x1D505), (0x1D507, 0x1D50A), (0x1D50D, 0x1D514), (0x1D516, 0x1D51C),
      (0x1D51E, 0x1D539), (0x1D53B, 0x1D53E), (0x1D540, 0x1D544), (0x1D546, 0x1D546),
      (0x1D54A, 0x1D550), (0x1D552, 0x1D6A5), (0x1D6A8, 0x1D6C0), (0x1D6C2, 0x1D6DA),
      (0x1D6DC, 0x1D6FA), (0x1D6FC, 0x1D714), (0x1D716, 0x1D734), (0x1D736, 0x1D74E),
      (0x1D750, 0x1D76E), (0x1D770, 0x1D788), (0x1D78A, 0x1D7A8), (0x1D7AA, 0x1D7C2),
      (0x1D7C4, 0x1D7CB), (0x1DF00, 0x1DF09), (0x1DF0B, 0x1DF1E), (0x1E900, 0x1E943),
      (0x1F130, 0x1F149), (0x1F150, 0x1F169), (0x1F170, 0x1F189)
     ]"

fun lower_lookup :: "(nat \<times> nat \<times> nat \<times> nat) list \<Rightarrow> nat \<Rightarrow> nat" where
  "lower_lookup [] c = c"
| "lower_lookup ((lo, hi, step, target) # rs) c =
     (if c < lo then c
      else if c \<le> hi \<and> (c - lo) mod step = 0 then target + (c - lo)
      else lower_lookup rs c)"

fun in_ranges :: "(nat \<times> nat) list \<Rightarrow> nat \<Rightarrow> bool" where
  "in_ranges [] c = False"
| "in_ranges ((lo, hi) # rs) c =
     (if c < lo then False else if c \<le> hi then True else in_ranges rs c)"

definition case_ignorable :: "nat \<Rightarrow> bool" where
  "case_ignorable c = in_ranges case_ignorable_table c"

definition cased :: "nat \<Rightarrow> bool" where
  "cased c = in_ranges cased_table c"

text \<open>The code points of a string: a surrogate pair is one code point, a lone surrogate stays.\<close>

fun code_points :: "jsstring \<Rightarrow> nat list" where
  "code_points [] = []"
| "code_points [u] = [u]"
| "code_points (u # v # rest) =
     (if 0xD800 \<le> u \<and> u \<le> 0xDBFF \<and> 0xDC00 \<le> v \<and> v \<le> 0xDFFF
      then (0x10000 + (u - 0xD800) * 0x400 + (v - 0xDC00)) # code_points rest
      else u # code_points (v # rest))"

definition utf16_units :: "nat \<Rightarrow> jsstring" where
  "utf16_units cp =
     (if cp < 0x10000 then [cp]
      else [0xD800 + (cp - 0x10000) div 0x400, 0xDC00 + (cp - 0x10000) mod 0x400])"

text \<open>\<open>final_sigma before after\<close>: \<open>before\<close> is what precedes the sigma, nearest first.\<close>

definition final_sigma :: "nat list \<Rightarrow> nat list \<Rightarrow> bool" where
  "final_sigma before after =
     ((case dropWhile case_ignorable before of [] \<Rightarrow> False | p # ps \<Rightarrow> cased p)
      \<and> (case dropWhile case_ignorable after of [] \<Rightarrow> True | n # ns \<Rightarrow> \<not> cased n))"

fun lower_code_points :: "nat list \<Rightarrow> nat list \<Rightarrow> nat list" where
  "lower_code_points before [] = []"
| "lower_code_points before (c # rest) =
     (if c = 0x3A3 then [if final_sigma before rest then 0x3C2 else 0x3C3]
      else if c = 0x130 then [0x69, 0x307]
      else [lower_lookup lower_table c])
     @ lower_code_points (c # before) rest"

definition toLowerCase :: "jsstring \<Rightarrow> jsstring" where
  "toLowerCase s = concat (map utf16_units (lower_code_points [] (code_points s)))"

text \<open>
  A regular expression with the flag \<open>i\<close> and no flag \<open>u\<close> compares code units after
  canonicalizing them, which takes a letter \<open>a\<close> to \<open>z\<close> or \<open>A\<close> to \<open>Z\<close> to one case and never
  takes a code unit from 128 on to one below: against the ASCII patterns of the source
  it ignores the case of ASCII letters only. \<open>regex_fold\<close> is that comparison's
  normal form.
\<close>

definition regex_fold :: "nat \<Rightarrow> nat" where
  "regex_fold c = (if isUpper c then c + 0x20 else c)"

definition startsWith :: "jsstring \<Rightarrow> jsstring \<Rightarrow> bool" where
  "startsWith s p = (take (length p) s = p)"

fun includes_str :: "jsstring \<Rightarrow> jsstring \<Rightarrow> bool" where
  "includes_str [] sub = (sub = [])"
| "includes_str (c # cs) sub = (startsWith (c # cs) sub \<or> includes_str cs sub)"

text \<open>\<open>value || ''\<close>: a missing value counts as the empty string.\<close>

definition or_empty :: "jsstring option \<Rightarrow> jsstring" where
  "or_empty v = (case v of None \<Rightarrow> [] | Some s \<Rightarrow> s)"

section \<open>Decoding a buffer as UTF-8\<close>

text \<open>
  \<open>buffer.toString('utf8', start, end)\<close> decodes the bytes from \<open>start\<close> up to \<open>end\<close>.
  A well-formed sequence gives its code point; every maximal ill-formed part gives
  \<open>U+FFFD\<close>, and the byte that broke a sequence is read again as the start of the next
  one. A code point beyond \<open>U+FFFF\<close> becomes a surrogate pair.
\<close>

datatype lead = Single nat | Multi nat nat nat nat | Invalid

text \<open>
  \<open>lead_byte b\<close> classifies a first byte: a character of its own, the start of a
  sequence (\<open>Multi cp needed lower upper\<close>: bits read so far, continuation bytes to come,
  and the range allowed for the next byte), or a byte that cannot start a sequence.
\<close>

definition lead_byte :: "nat \<Rightarrow> lead" where
  "lead_byte b =
     (if b \<le> 0x7F then Single b
      else if 0xC2 \<le> b \<and> b \<le> 0xDF then Multi (b mod 0x20) 1 0x80 0xBF
      else if 0xE0 \<le> b \<and> b \<le> 0xEF then
        Multi (b mod 0x10) 2 (if b = 0xE0 then 0xA0 else 0x80) (if b = 0xED then 0x9F else 0xBF)
      else if 0xF0 \<le> b \<and> b \<le> 0xF4 then
        Multi (b mod 0x08) 3 (if b = 0xF0 then 0x90 else 0x80) (if b = 0xF4 then 0x8F else 0xBF)
      else Invalid)"

fun utf8_decode :: "(nat \<times> nat \<times> nat \<times> nat) option \<Rightarrow> nat list \<Rightarrow> nat list" where
  "utf8_decode None [] = []"
| "utf8_decode (Some st) [] = [0xFFFD]"
| "utf8_decode None (b # bs) =
     (case lead_byte b of
        Single c \<Rightarrow> c # utf8_decode None bs
      | Multi cp needed lower upper \<Rightarrow> utf8_decode (Some (cp, needed, lower, upper)) bs
      | Invalid \<Rightarrow> 0xFFFD # utf8_decode None bs)"
| "utf8_decode (Some (cp, needed, lower, upper)) (b # bs) =
     (if lower \<le> b \<and> b \<le> upper then
        (let cp' = cp * 0x40 + b mod 0x40
         in if needed = 1 then cp' # utf8_decode None bs
            else utf8_decode (Some (cp', needed - 1, 0x80, 0xBF)) bs)
      else 0xFFFD #
        (case lead_byte b of
           Single c \<Rightarrow> c # utf8_decode None bs
         | Multi cp0 needed0 lower0 upper0 \<Rightarrow> utf8_decode (Some (cp0, needed0, lower0, upper0)) bs
         | Invalid \<Rightarrow> 0xFFFD # utf8_decode None bs))"

definition toString_utf8 :: "buffer \<Rightarrow> nat \<Rightarrow> nat \<Rightarrow> jsstring" where
  "toString_utf8 buf s e = concat (map utf16_units (utf8_decode None (map unat (subarray buf s e))))"

section \<open>Varint reader: \<open>GroupAnalyticsService.readVarint\<close>\<close>

text \<open>
  A JavaScript number is an IEEE double. The reader only ever adds non-negative
  integers, so a number is modelled by the natural number it holds, and every addition
  rounds its exact result to the nearest double, ties to even: \<open>ulp n\<close> is the spacing
  of the doubles around \<open>n\<close> (1 below \<open>2 ^ 53\<close>, doubling with each further bit).
\<close>

fun ulp :: "nat \<Rightarrow> nat" where
  "ulp n = (if n < 2 ^ 53 then 1 else 2 * ulp (n div 2))"

declare ulp.simps [simp del]

definition round_double :: "nat \<Rightarrow> nat" where
  "round_double n =
     (let q = ulp n; lo = (n div q) * q; r = n mod q
      in if 2 * r < q then lo
         else if q < 2 * r then lo + q
         else if even (n div q) then lo else lo + q)"

text \<open>
  \<open>buffer[pos]\<close> is \<open>undefined\<close> outside the buffer; \<open>undefined & mask\<close> is 0.
\<close>

definition byte_at :: "buffer \<Rightarrow> nat \<Rightarrow> byte option" where
  "byte_at buf pos = (if pos < length buf then Some (buf ! pos) else None)"

definition bitand :: "byte option \<Rightarrow> byte \<Rightarrow> nat" where
  "bitand ob msk = (case ob of Some b \<Rightarrow> unat (b AND msk) | None \<Rightarrow> 0)"

record varint =
  v_value :: nat
  v_next :: nat

text \<open>
  The loop of \<open>readVarint\<close>. Besides the source's variables it carries \<open>inspected\<close>, the
  indices at which the buffer has been read so far, and returns it with the result.
\<close>

function readVarint_loop ::
  "buffer \<Rightarrow> nat \<Rightarrow> nat \<Rightarrow> nat \<Rightarrow> nat \<Rightarrow> nat list \<Rightarrow> varint option \<times> nat list" where
  "readVarint_loop buffer limit val shift pos inspected =
     (if pos < limit \<and> shift \<le> 53 then
        let byte = byte_at buffer pos;
            inspected' = inspected @ [pos];
            val' = round_double (val + bitand byte 0x7f * 2 ^ shift);
            pos' = pos + 1
        in if bitand byte 0x80 = 0 then (Some \<lparr>v_value = val', v_next = pos'\<rparr>, inspected')
           else readVarint_loop buffer limit val' (shift + 7) pos' inspected'
      else (None, inspected))"
  by pat_completeness auto
termination
  by (relation "measure (\<lambda>(buffer, limit, val, shift, pos, inspected). 60 - shift)") auto

declare readVarint_loop.simps [simp del]

definition readVarint :: "buffer \<Rightarrow> nat \<Rightarrow> nat \<Rightarrow> varint option" where
  "readVarint buffer offset limit = fst (readVarint_loop buffer limit 0 0 offset [])"

definition readVarint_inspected :: "buffer \<Rightarrow> nat \<Rightarrow> nat \<Rightarrow> nat list" where
  "readVarint_inspected buffer offset limit = snd (readVarint_loop buffer limit 0 0 offset [])"

lemma readVarint_loop_advances:
  "fst (readVarint_loop buffer limit val shift pos inspected) = Some r \<Longrightarrow> pos < v_next r"
proof (induction buffer limit val shift pos inspected rule: readVarint_loop.induct)
  case (1 buffer limit val shift pos inspected)
  show ?case
  proof (cases "pos < limit \<and> shift \<le> 53")
    case False
    then have "readVarint_loop buffer limit val shift pos inspected = (None, inspected)"
      by (subst readVarint_loop.simps) (simp only: if_False)
    with "1.prems" show ?thesis by simp
  next
    case True
    show ?thesis
    proof (cases "bitand (byte_at buffer pos) 0x80 = 0")
      case stop: True
      from True stop have "fst (readVarint_loop buffer limit val shift pos inspected)
            = Some \<lparr>v_value = round_double (val + bitand (byte_at buffer pos) 0x7f * 2 ^ shift),
                     v_next = pos + 1\<rparr>"
        by (subst readVarint_loop.simps) (simp add: Let_def)
      with "1.prems" show ?thesis by auto
    next
      case go: False
      from True go have "readVarint_loop buffer limit val shift pos inspected
            = readVarint_loop buffer limit
                (round_double (val + bitand (byte_at buffer pos) 0x7f * 2 ^ shift))
                (shift + 7) (pos + 1) (inspected @ [pos])"
        by (subst readVarint_loop.simps) (simp add: Let_def)
      with "1.prems" have "fst (readVarint_loop buffer limit
                (round_double (val + bitand (byte_at buffer pos) 0x7f * 2 ^ shift))
                (shift + 7) (pos + 1) (inspected @ [pos])) = Some r" by simp
      from "1.IH" [OF True refl refl refl refl go this] show ?thesis by simp
    qed
  qed
qed

lemma readVarint_advances: "readVarint buffer offset limit = Some r \<Longrightarrow> offset < v_next r"
  unfolding readVarint_def by (rule readVarint_loop_advances)

section \<open>Member identifiers and nicknames\<close>

definition cleanAccountDirName :: "jsstring \<Rightarrow> jsstring" where
  "cleanAccountDirName name =
     (let trimmed = trim name
      in if trimmed = [] then trimmed
         else if startsWith (toLowerCase trimmed) (lit ''wxid_'') then
           \<comment> \<open>\<open>/^(wxid_[^_]+)/i\<close>: the prefix and the longest run without an underscore\<close>
           (let run = takeWhile (\<lambda>c. c \<noteq> 0x5F) (drop 5 trimmed)
            in if map regex_fold (take 5 trimmed) = lit ''wxid_'' \<and> run \<noteq> []
               then take 5 trimmed @ run else trimmed)
         else
           \<comment> \<open>\<open>/^(.+)_([a-zA-Z0-9]{4})$/\<close>: an underscore and four letters or digits at the end,
              after at least one character, none of them a line terminator\<close>
           (let n = length trimmed
            in if n \<ge> 6 \<and> trimmed ! (n - 5) = 0x5F \<and> list_all isAlnum (drop (n - 4) trimmed)
                  \<and> list_all (\<lambda>c. \<not> isLineTerminator c) (take (n - 5) trimmed)
               then take (n - 5) trimmed else trimmed))"

definition normalizeGroupNickname :: "jsstring \<Rightarrow> jsstring" where
  "normalizeGroupNickname v =
     (let trimmed = trim v
      in if trimmed = [] then []
         else if list_all (\<lambda>c. c = 0x22 \<or> c = 0x27 \<or> c = 0x40) trimmed then []
         else trimmed)"

definition isIdChar :: "nat \<Rightarrow> bool" where
  "isIdChar c = (isAlnum c \<or> c = 0x5F \<or> c = 0x2E \<or> c = 0x40 \<or> c = 0x2D)"

definition isLikelyMemberId :: "jsstring \<Rightarrow> bool" where
  "isLikelyMemberId v =
     (let ident = trim v
      in if ident = [] then False
         else if includes_str ident (lit ''@chatroom'') then False
         else if length ident < 4 \<or> length ident > 80 then False
         else (isUpper (hd ident) \<or> isLower (hd ident)) \<and> list_all isIdChar (tl ident))"

definition isCjkOrWord :: "nat \<Rightarrow> bool" where
  "isCjkOrWord c = ((0x4E00 \<le> c \<and> c \<le> 0x9FFF) \<or> (0x3400 \<le> c \<and> c \<le> 0x4DBF) \<or> isWordChar c)"

definition isLikelyNickname :: "jsstring \<Rightarrow> bool" where
  "isLikelyNickname v =
     (let cleaned = normalizeGroupNickname v
      in if cleaned = [] then False
         else if length cleaned \<ge> 6 \<and> map regex_fold (take 5 cleaned) = lit ''wxid_''
                 \<and> list_all isWordChar (drop 5 cleaned) then False
         else if includes_str cleaned (lit ''@chatroom'') then False
         else if list_all (\<lambda>c. \<not> isCjkOrWord c) cleaned then False
         else if length cleaned = 1 then
           (let code = hd cleaned in 0x3400 \<le> code \<and> code \<le> 0x9fff)
         else True)"

text \<open>A \<open>Set\<close> of strings, in insertion order.\<close>

definition set_add :: "jsstring list \<Rightarrow> jsstring \<Rightarrow> jsstring list" where
  "set_add xs x = (if x \<in> set xs then xs else xs @ [x])"

fun buildIdCandidates_loop :: "jsstring list \<Rightarrow> jsstring list \<Rightarrow> jsstring list" where
  "buildIdCandidates_loop acc [] = acc"
| "buildIdCandidates_loop acc (rawValue # values) =
     (let raw = trim rawValue
      in if raw = [] then buildIdCandidates_loop acc values
         else
           (let acc1 = set_add acc raw;
                cleaned = cleanAccountDirName raw
            in if cleaned \<noteq> [] \<and> cleaned \<noteq> raw
               then buildIdCandidates_loop (set_add acc1 cleaned) values
               else buildIdCandidates_loop acc1 values))"

definition buildIdCandidates :: "jsstring list \<Rightarrow> jsstring list" where
  "buildIdCandidates values = buildIdCandidates_loop [] values"

section \<open>Extended-data parser: \<open>GroupAnalyticsService.parseGroupNicknamesFromExtBuffer\<close>\<close>

text \<open>
  A \<open>Map<string, string>\<close> is the list of its entries in insertion order, with distinct
  keys: \<open>set\<close> on a new key appends an entry and on an old key replaces its value in
  place.
\<close>

type_synonym nickname_map = "(jsstring \<times> jsstring) list"

definition map_has :: "nickname_map \<Rightarrow> jsstring \<Rightarrow> bool" where
  "map_has m k = (k \<in> set (map fst m))"

definition map_set :: "nickname_map \<Rightarrow> jsstring \<Rightarrow> jsstring \<Rightarrow> nickname_map" where
  "map_set m k v =
     (if map_has m k then map (\<lambda>e. if fst e = k then (k, v) else e) m else m @ [(k, v)])"

definition map_get :: "nickname_map \<Rightarrow> jsstring \<Rightarrow> jsstring option" where
  "map_get m k = map_of m k"

definition isControl :: "nat \<Rightarrow> bool" where
  "isControl c = (c \<le> 0x1F \<or> c = 0x7F)"

text \<open>
  One pass of the loop body at index \<open>i\<close>: the value \<open>i\<close> has when the body is left
  (before the loop's \<open>i += 1\<close>) and the record accepted, if one was. All calls of
  \<open>readVarint\<close> use its default limit, the buffer's length.
\<close>

definition scan_at :: "buffer \<Rightarrow> jsstring list \<Rightarrow> nat \<Rightarrow> nat \<times> (jsstring \<times> jsstring) option" where
  "scan_at buffer candidateSet i =
     (if byte_at buffer i \<noteq> Some 0x0a then (i, None)
      else case readVarint buffer (i + 1) (length buffer) of
        None \<Rightarrow> (i, None)
      | Some idLenInfo \<Rightarrow>
        (let idLen = v_value idLenInfo
         in if idLen \<le> 0 \<or> idLen > 96 then (i, None)
            else
              (let idStart = v_next idLenInfo;
                   idEnd = idStart + idLen
               in if idEnd > length buffer then (i, None)
                  else
                    (let memberId = trim (toString_utf8 buffer idStart idEnd)
                     in if \<not> isLikelyMemberId memberId then (i, None)
                        else
                          (let memberIdLower = toLowerCase memberId
                           in if candidateSet \<noteq> [] \<and> memberIdLower \<notin> set candidateSet
                              then (idEnd - 1, None)
                              else
                                (let cursor = idEnd
                                 in if cursor \<ge> length buffer \<or> byte_at buffer cursor \<noteq> Some 0x12
                                    then (idEnd - 1, None)
                                    else case readVarint buffer (cursor + 1) (length buffer) of
                                      None \<Rightarrow> (idEnd - 1, None)
                                    | Some nickLenInfo \<Rightarrow>
                                      (let nickLen = v_value nickLenInfo
                                       in if nickLen \<le> 0 \<or> nickLen > 128 then (idEnd - 1, None)
                                          else
                                            (let nickStart = v_next nickLenInfo;
                                                 nickEnd = nickStart + nickLen
                                             in if nickEnd > length buffer then (idEnd - 1, None)
                                                else
                                                  (let rawNick = toString_utf8 buffer nickStart nickEnd;
                                                       nickname = normalizeGroupNickname
                                                         (trim (filter (\<lambda>c. \<not> isControl c) rawNick))
                                                   in if \<not> isLikelyNickname nickname
                                                      then (nickEnd - 1, None)
                                                      else (nickEnd - 1, Some (memberId, nickname)))))))))))"

text \<open>What the loop does with an accepted record: each of the two keys is set only if absent.\<close>

definition store_record :: "nickname_map \<Rightarrow> jsstring \<times> jsstring \<Rightarrow> nickname_map" where
  "store_record m rec =
     (let memberId = fst rec; nickname = snd rec; memberIdLower = toLowerCase memberId;
          m1 = (if \<not> map_has m memberId then map_set m memberId nickname else m)
      in if \<not> map_has m1 memberIdLower then map_set m1 memberIdLower nickname else m1)"

lemma scan_at_advances: "i \<le> fst (scan_at buffer candidateSet i)"
proof -
  have a: "\<And>r n L. readVarint buffer (Suc i) L = Some r \<Longrightarrow> i \<le> v_next r + n - Suc 0"
  proof -
    fix r n L
    assume "readVarint buffer (Suc i) L = Some r"
    from readVarint_advances [OF this] show "i \<le> v_next r + n - Suc 0" by simp
  qed
  have b: "\<And>r q n k L. readVarint buffer (Suc i) L = Some r
            \<Longrightarrow> readVarint buffer (Suc (v_next r + n)) L = Some q
            \<Longrightarrow> i \<le> v_next q + k - Suc 0"
  proof -
    fix r q n k L
    assume r: "readVarint buffer (Suc i) L = Some r"
      and q: "readVarint buffer (Suc (v_next r + n)) L = Some q"
    from readVarint_advances [OF r] readVarint_advances [OF q]
    show "i \<le> v_next q + k - Suc 0" by simp
  qed
  show ?thesis
    by (simp add: scan_at_def Let_def a b split: option.splits)
qed

lemma scan_at_le: "scan_at buffer candidateSet i = (i', r) \<Longrightarrow> i \<le> i'"
  using scan_at_advances [of i buffer candidateSet] by simp

text \<open>
  The scan. Besides the map it carries \<open>accepted\<close>, the records accepted so far in scan
  order, and returns it with the map.
\<close>

function parse_loop ::
  "buffer \<Rightarrow> jsstring list \<Rightarrow> nat \<Rightarrow> nickname_map \<Rightarrow> (jsstring \<times> jsstring) list
   \<Rightarrow> nickname_map \<times> (jsstring \<times> jsstring) list"
where
  "parse_loop buffer candidateSet i nicknameMap accepted =
     (if i + 2 < length buffer then
        (case scan_at buffer candidateSet i of
           (i', None) \<Rightarrow> parse_loop buffer candidateSet (i' + 1) nicknameMap accepted
         | (i', Some rec) \<Rightarrow>
             parse_loop buffer candidateSet (i' + 1) (store_record nicknameMap rec)
               (accepted @ [rec]))
      else (nicknameMap, accepted))"
  by pat_completeness auto
termination
proof (relation "measure (\<lambda>(buffer, candidateSet, i, nicknameMap, accepted). length buffer - i)",
       goal_cases)
  case 1
  show ?case by simp
next
  case 2
  then show ?case by (auto dest!: scan_at_le scan_at_le [OF sym])
next
  case 3
  then show ?case by (auto dest!: scan_at_le scan_at_le [OF sym])
qed

declare parse_loop.simps [simp del]

definition candidate_set :: "jsstring list \<Rightarrow> jsstring list" where
  "candidate_set candidates = map toLowerCase (buildIdCandidates candidates)"

definition parseGroupNicknamesFromExtBuffer :: "buffer \<Rightarrow> jsstring list \<Rightarrow> nickname_map" where
  "parseGroupNicknamesFromExtBuffer buffer candidates =
     (if buffer = [] then []
      else fst (parse_loop buffer (candidate_set candidates) 0 [] []))"

definition accepted_records :: "buffer \<Rightarrow> jsstring list \<Rightarrow> (jsstring \<times> jsstring) list" where
  "accepted_records buffer candidates = snd (parse_loop buffer (candidate_set candidates) 0 [] [])"

text \<open>Whether a record's identifier is the key \<open>k\<close>, as it stands or lower-cased.\<close>

definition key_of_record :: "jsstring \<Rightarrow> jsstring \<times> jsstring \<Rightarrow> bool" where
  "key_of_record k rec = (fst rec = k \<or> toLowerCase (fst rec) = k)"

text \<open>
  The blob of the spec's example, and one with two records for the same member, the
  second with another nickname.
\<close>

definition example_blob :: buffer where
  "example_blob =
     [0x0A, of_nat (length (ascii_bytes ''wxid_abcd''))] @ ascii_bytes ''wxid_abcd'' @
     [0x12, of_nat (length (ascii_bytes ''Alice1''))] @ ascii_bytes ''Alice1''"

definition twice_blob :: buffer where
  "twice_blob =
     [0x0A, 0x04] @ ascii_bytes ''Abcd'' @ [0x12, 0x04] @ ascii_bytes ''Bob1'' @
     [0x0A, 0x04] @ ascii_bytes ''abcd'' @ [0x12, 0x04] @ ascii_bytes ''Eve2'' @ [0x00, 0x00]"

text \<open>
  One record, \<open>kabc\<close> with the nickname \<open>Bob1\<close>; it is parsed with a candidate that starts
  with the Kelvin sign U+212A, whose lower-case form is the letter \<open>k\<close>.
\<close>

definition kelvin_blob :: buffer where
  "kelvin_blob = [0x0A, 0x04] @ ascii_bytes ''kabc'' @ [0x12, 0x04] @ ascii_bytes ''Bob1'' @ [0x00, 0x00]"

definition kelvin_candidate :: jsstring where
  "kelvin_candidate = [0x212A] @ lit ''abc''"

section \<open>Candidate resolution: \<open>GroupAnalyticsService.resolveGroupNicknameByCandidates\<close>\<close>

text \<open>The first loop: the first candidate whose own entry has a usable nickname.\<close>

fun exact_loop :: "nickname_map \<Rightarrow> jsstring list \<Rightarrow> jsstring option" where
  "exact_loop groupNicknames [] = None"
| "exact_loop groupNicknames (ident # idCandidates) =
     (let exact = normalizeGroupNickname (or_empty (map_get groupNicknames ident))
      in if exact \<noteq> [] then Some exact else exact_loop groupNicknames idCandidates)"

text \<open>
  The inner loop over the entries, for one lower-cased candidate: it either makes the
  whole function return the empty string (a second match), or ends with \<open>found\<close> and
  \<open>matched\<close>.
\<close>

datatype entry_scan = ReturnEmpty | Scanned jsstring nat

fun scan_entries :: "jsstring \<Rightarrow> nickname_map \<Rightarrow> jsstring \<Rightarrow> nat \<Rightarrow> entry_scan" where
  "scan_entries lower [] found matched = Scanned found matched"
| "scan_entries lower (entry # entries) found matched =
     (if toLowerCase (fst entry) \<noteq> lower then scan_entries lower entries found matched
      else
        (let normalized = normalizeGroupNickname (snd entry)
         in if normalized = [] then scan_entries lower entries found matched
            else if matched + 1 > 1 then ReturnEmpty
            else scan_entries lower entries normalized (matched + 1)))"

fun fallback_loop :: "nickname_map \<Rightarrow> jsstring list \<Rightarrow> jsstring" where
  "fallback_loop groupNicknames [] = []"
| "fallback_loop groupNicknames (ident # idCandidates) =
     (case scan_entries (toLowerCase ident) groupNicknames [] 0 of
        ReturnEmpty \<Rightarrow> []
      | Scanned found matched \<Rightarrow>
          if matched = 1 \<and> found \<noteq> [] then found
          else fallback_loop groupNicknames idCandidates)"

definition resolveGroupNicknameByCandidates :: "nickname_map \<Rightarrow> jsstring list \<Rightarrow> jsstring" where
  "resolveGroupNicknameByCandidates groupNicknames candidates =
     (let idCandidates = buildIdCandidates candidates
      in if idCandidates = [] then []
         else case exact_loop groupNicknames idCandidates of
                Some exact \<Rightarrow> exact
              | None \<Rightarrow> fallback_loop groupNicknames idCandidates)"

text \<open>
  The entries that match a candidate case-insensitively: by key alone, and by key with
  a nickname that is not empty once normalized.
\<close>

definition key_match :: "jsstring \<Rightarrow> jsstring \<times> jsstring \<Rightarrow> bool" where
  "key_match lower entry = (toLowerCase (fst entry) = lower)"

definition key_matches :: "nickname_map \<Rightarrow> jsstring \<Rightarrow> nickname_map" where
  "key_matches m ident = filter (key_match (toLowerCase ident)) m"

definition usable_match :: "jsstring \<Rightarrow> jsstring \<times> jsstring \<Rightarrow> bool" where
  "usable_match lower entry =
     (toLowerCase (fst entry) = lower \<and> normalizeGroupNickname (snd entry) \<noteq> [])"

definition usable_matches :: "nickname_map \<Rightarrow> jsstring \<Rightarrow> nickname_map" where
  "usable_matches m ident = filter (usable_match (toLowerCase ident)) m"

definition has_usable_match :: "nickname_map \<Rightarrow> jsstring \<Rightarrow> bool" where
  "has_usable_match m ident = (usable_matches m ident \<noteq> [])"

text \<open>
  Two tables: one with an entry whose nickname normalizes to nothing, and the table
  the parser builds from the records \<open>abcd\<close>, \<open>Ann\<close> and \<open>Efgh\<close>, \<open>Eve\<close>.
\<close>

definition junk_table :: nickname_map where
  "junk_table = [(lit ''Bc'', lit ''@''), (lit ''bC'', lit ''Bob'')]"

definition member_table :: nickname_map where
  "member_table = [(lit ''abcd'', lit ''Ann''), (lit ''Efgh'', lit ''Eve''), (lit ''efgh'', lit ''Eve'')]"

definition single_table :: nickname_map where
  "single_table = [(lit ''Wxid_Ab'', lit ''Nick''), (lit ''other'', lit ''Zed'')]"

text \<open>A key that starts with U+00C9, and a candidate that starts with its lower-case form U+00E9.\<close>

definition accent_table :: nickname_map where
  "accent_table = [([0xC9, 0x61], lit ''Bob''), (lit ''other'', lit ''Zed'')]"

definition accent_candidate :: jsstring where
  "accent_candidate = lit '' '' @ [0xE9, 0x61] @ lit '' ''"

text \<open>The base-128 little-endian value of a run of bytes, seven payload bits each.\<close>

fun base128 :: "buffer \<Rightarrow> nat" where
  "base128 [] = 0"
| "base128 (b # bs) = unat (b AND 0x7f) + 128 * base128 bs"

text \<open>Whether the byte at index \<open>i\<close> has its high (continuation) bit set.\<close>

definition high_bit_set :: "buffer \<Rightarrow> nat \<Rightarrow> bool" where
  "high_bit_set buffer i = (buffer ! i AND 0x80 \<noteq> 0)"

section \<open>Paginated message cursor: \<open>HttpService.fetchMessagesBatch\<close>\<close>

text \<open>
  The encrypted store (\<open>wcdbService\<close>) is a collaborator. Opening a cursor throws, fails
  with an optional message, or gives a cursor; each \<open>fetchMessageBatch\<close> on a cursor throws
  or gives a batch object, whose \<open>rows\<close> and \<open>hasMore\<close> may be missing; closing may throw.
  A cursor is modelled by its answers: \<open>fetch c n\<close> is what the call number \<open>n\<close> (from 0)
  on it returns.
\<close>

record 'row batch =
  b_success :: bool
  b_rows :: "'row list option"
  b_hasMore :: "bool option"

datatype 'row fetch_result = Batch "'row batch" | FetchThrows jsstring

record 'row cursor =
  fetch :: "nat \<Rightarrow> 'row fetch_result"
  close_throws :: "jsstring option"

datatype 'row open_result = OpenThrows jsstring | OpenFails "jsstring option" | Opened "'row cursor"

type_synonym 'row store = "jsstring \<Rightarrow> nat \<Rightarrow> bool \<Rightarrow> int \<Rightarrow> int \<Rightarrow> 'row open_result"

datatype fetch_error = CursorOpenFailed "jsstring option" | Exception jsstring

text \<open>
  The state of the loop when it ends: the rows accumulated, the variable \<open>hasMore\<close>, and
  how many batches were fetched from the cursor.
\<close>

record 'row loop_end =
  end_allRows :: "'row list"
  end_hasMore :: bool
  end_fetched :: nat

text \<open>
  A batch the loop goes on with: successful, with rows, and not empty. Any other batch
  ends the loop with \<open>hasMore = false\<close>.
\<close>

definition usable :: "'row batch \<Rightarrow> bool" where
  "usable b = (b_success b \<and> (case b_rows b of None \<Rightarrow> False | Some rs \<Rightarrow> rs \<noteq> []))"

function fetch_loop ::
  "'row cursor \<Rightarrow> nat \<Rightarrow> nat \<Rightarrow> nat \<Rightarrow> 'row list \<Rightarrow> bool \<Rightarrow> nat \<Rightarrow> jsstring + 'row loop_end"
where
  "fetch_loop cursor offset limit n allRows hasMore skipped =
     (if length allRows < limit \<and> hasMore then
        (case fetch cursor n of
           FetchThrows e \<Rightarrow> Inl e
         | Batch batch \<Rightarrow>
             if usable batch then
               (let rows = the (b_rows batch);
                    hasMore' = (b_hasMore batch = Some True)
                in if skipped < offset then
                     (let remaining = offset - skipped
                      in if remaining \<ge> length rows
                         then fetch_loop cursor offset limit (n + 1) allRows hasMore'
                                (skipped + length rows)
                         else fetch_loop cursor offset limit (n + 1)
                                (allRows @ drop remaining rows) hasMore' offset)
                   else fetch_loop cursor offset limit (n + 1) (allRows @ rows) hasMore' skipped)
             else Inr \<lparr>end_allRows = allRows, end_hasMore = False, end_fetched = n + 1\<rparr>)
      else Inr \<lparr>end_allRows = allRows, end_hasMore = hasMore, end_fetched = n\<rparr>)"
  by pat_completeness auto
termination
proof (relation "measure (\<lambda>(cursor, offset, limit, n, allRows, hasMore, skipped).
                   (offset - skipped) + (limit - length allRows))", goal_cases)
  case 1
  show ?case by simp
next
  case (2 cursor offset limit n allRows hasMore skipped batch rows hasMore' remaining)
  from \<open>usable batch\<close> \<open>rows = the (b_rows batch)\<close> have L: "0 < length rows"
    by (auto simp: usable_def split: option.splits)
  from 2 have R: "length rows \<le> offset - skipped" by simp
  have "(offset - (skipped + length rows)) + (limit - length allRows)
        < (offset - skipped) + (limit - length allRows)"
    using L R by arith
  then show ?case by simp
next
  case (3 cursor offset limit n allRows hasMore skipped batch rows hasMore' remaining)
  from 3 have a: "skipped < offset" by simp
  have b: "limit - length (allRows @ drop remaining rows) \<le> limit - length allRows" by simp
  have "(offset - offset) + (limit - length (allRows @ drop remaining rows))
        < (offset - skipped) + (limit - length allRows)"
    using a b by arith
  then show ?case by (simp only: in_measure split_conv)
next
  case (4 cursor offset limit n allRows hasMore skipped batch rows hasMore')
  from \<open>usable batch\<close> \<open>rows = the (b_rows batch)\<close> have L: "0 < length rows"
    by (auto simp: usable_def split: option.splits)
  from 4 have R: "length allRows < limit" by simp
  have "limit - (length allRows + length rows) < limit - length allRows"
    using L R by arith
  then have "(offset - skipped) + (limit - length (allRows @ rows))
        < (offset - skipped) + (limit - length allRows)"
    by (simp only: length_append add_less_cancel_left)
  then show ?case by (simp only: in_measure split_conv)
qed

declare fetch_loop.simps [simp del]

definition batchSize :: "nat \<Rightarrow> nat" where
  "batchSize limit = min limit 500"

text \<open>
  Times are numbers of seconds, possibly negative; one above \<open>10000000000\<close> is taken for
  milliseconds and cut down to seconds (\<open>Math.floor\<close> of a positive quotient).
\<close>

definition toSeconds :: "int \<Rightarrow> int" where
  "toSeconds t = (if t > 10000000000 then t div 1000 else t)"

record 'row page =
  p_rows :: "'row list"
  p_hasMore :: bool

text \<open>
  The body of \<open>fetchMessagesBatch\<close> up to the trimmed rows: \<open>fetchRows\<close> gives the cursor
  that was opened, the loop's final state, and the page (\<open>trimmedRows\<close>, \<open>finalHasMore\<close>).
  The cursor is closed on the way out; an exception from closing replaces the outcome.
\<close>

definition finish :: "'row cursor \<Rightarrow> fetch_error + 'a \<Rightarrow> fetch_error + 'a" where
  "finish cursor r = (case close_throws cursor of Some e \<Rightarrow> Inl (Exception e) | None \<Rightarrow> r)"

definition fetchRows ::
  "'row store \<Rightarrow> jsstring \<Rightarrow> nat \<Rightarrow> nat \<Rightarrow> int \<Rightarrow> int \<Rightarrow> bool
   \<Rightarrow> fetch_error + ('row cursor \<times> 'row loop_end \<times> 'row page)"
where
  "fetchRows store talker offset limit startTime endTime ascending =
     (let beginTimestamp = toSeconds startTime;
          endTimestamp = toSeconds endTime
      in case store talker (batchSize limit) ascending beginTimestamp endTimestamp of
           OpenThrows e \<Rightarrow> Inl (Exception e)
         | OpenFails err \<Rightarrow> Inl (CursorOpenFailed err)
         | Opened cursor \<Rightarrow>
             finish cursor
               (case fetch_loop cursor offset limit 0 [] True 0 of
                  Inl e \<Rightarrow> Inl (Exception e)
                | Inr st \<Rightarrow>
                    Inr (cursor, st,
                         \<lparr>p_rows = take limit (end_allRows st),
                          p_hasMore = (end_hasMore st \<or> length (end_allRows st) > limit)\<rparr>)))"

text \<open>
  \<open>chatService.mapRowsToMessagesForApi\<close> turns the trimmed rows into messages; it is a
  parameter.
\<close>

record 'msg messages_result =
  r_messages :: "'msg list"
  r_hasMore :: bool

definition fetchMessagesBatch ::
  "'row store \<Rightarrow> ('row list \<Rightarrow> 'msg list) \<Rightarrow> jsstring \<Rightarrow> nat \<Rightarrow> nat \<Rightarrow> int \<Rightarrow> int \<Rightarrow> bool
   \<Rightarrow> fetch_error + 'msg messages_result"
where
  "fetchMessagesBatch store mapRowsToMessagesForApi talker offset limit startTime endTime ascending =
     (case fetchRows store talker offset limit startTime endTime ascending of
        Inl e \<Rightarrow> Inl e
      | Inr (cursor, st, page) \<Rightarrow>
          Inr \<lparr>r_messages = mapRowsToMessagesForApi (p_rows page), r_hasMore = p_hasMore page\<rparr>)"

text \<open>Whether a fetch gave a usable batch that signalled more data.\<close>

definition signalled_more :: "'row fetch_result \<Rightarrow> bool" where
  "signalled_more r = (case r of Batch b \<Rightarrow> usable b \<and> b_hasMore b = Some True | FetchThrows e \<Rightarrow> False)"

text \<open>
  Modelled from the spec: the encrypted store's cursor, whose code (\<open>wcdbService\<close>) is not
  among the sources. Over a stable dataset of the rows that match the query, a cursor
  opened with batch size \<open>b\<close> yields the rows in order in batches of \<open>b\<close> (the last one
  shorter), each with \<open>hasMore\<close> telling whether rows remain after it, and an empty
  batch once the rows are used up.
\<close>

definition dataset_cursor :: "'row list \<Rightarrow> nat \<Rightarrow> 'row cursor" where
  "dataset_cursor ds b =
     \<lparr>fetch = (\<lambda>n. Batch \<lparr>b_success = True, b_rows = Some (take b (drop (n * b) ds)),
                              b_hasMore = Some ((n + 1) * b < length ds)\<rparr>),
      close_throws = None\<rparr>"

definition dataset_store :: "'row list \<Rightarrow> 'row store" where
  "dataset_store ds talker b ascending beginTimestamp endTimestamp = Opened (dataset_cursor ds b)"

section \<open>The messages endpoint: \<open>HttpService.handleMessages\<close>\<close>







text \<open>
  \<open>parseTimeParam\<close> turns the \<open>start\<close> and \<open>end\<close> parameters into times; it reads calendar
  dates through \<open>Date\<close> in the local time zone. The handler only passes its results on
  to the store, so it is a parameter here.
\<close>
























text \<open>
  \<open>last_signal cursor n h\<close>: at least one batch has been fetched, and \<open>h\<close> tells whether
  the last one (number \<open>n - 1\<close>) was usable and signalled more data.
\<close>

definition last_signal :: "'row cursor \<Rightarrow> nat \<Rightarrow> bool \<Rightarrow> bool" where
  "last_signal cursor n h = (1 \<le> n \<and> (h \<longleftrightarrow> signalled_more (fetch cursor (n - 1))))"

text \<open>A cursor that answers every fetch with an empty batch flagged \<open>hasMore\<close>, and a small dataset.\<close>

definition empty_batch_cursor :: "nat cursor" where
  "empty_batch_cursor =
     \<lparr>fetch = (\<lambda>n. Batch \<lparr>b_success = True, b_rows = Some [], b_hasMore = Some True\<rparr>),
      close_throws = None\<rparr>"

definition empty_batch_store :: "nat store" where
  "empty_batch_store talker b ascending beginTimestamp endTimestamp = Opened empty_batch_cursor"

definition demo_rows :: "nat list" where
  "demo_rows = [1, 2, 3, 4, 5, 6, 7, 8, 9, 10]"

section \<open>Properties of the keystream generator\<close>

lemma foldl_wasm_isaac_generate:
  "capturedKeystream (foldl wasm_isaac_generate s bs) =
     (if bs = [] then capturedKeystream s else Some (last bs))"
  by (induction bs arbitrary: s) (auto simp: wasm_isaac_generate_def)

text \<open>
  Claim C1. Whenever \<open>getKeystream\<close> returns a buffer, the module was initialised, its
  entry point exists, the output callback ran at least once during the call, and the
  buffer returned is the byte-wise reversal of the buffer the callback captured (the
  last one it was handed, which is what \<open>capturedKeystream\<close> holds afterwards). No path
  returns the captured bytes without reversing them: the result can equal the captured
  buffer only when that buffer reads the same in both directions.
\<close>

theorem getKeystream_returns_reversed_capture:
  assumes "getKeystream loader s0 key sizeN = (s', Inr out)"
  shows "\<exists>s1 m ctor captured.
           init loader s0 = Inr s1 \<and> module s1 = Some m \<and> entry_point m = Some ctor \<and>
           emitted (ctor key sizeN) \<noteq> [] \<and> captured = last (emitted (ctor key sizeN)) \<and>
           capturedKeystream s' = Some captured \<and> out = rev captured \<and>
           (out = captured \<longleftrightarrow> rev captured = captured)"
  using assms
  by (auto simp: getKeystream_def entry_point_def Let_def foldl_wasm_isaac_generate
           split: sum.splits option.splits if_splits)

definition demo_ctor :: isaac_ctor where
  "demo_ctor key sizeN = \<lparr>emitted = [[9, 9], [1, 2, 3]], thrown = None\<rparr>"

definition silent_ctor :: isaac_ctor where
  "silent_ctor key sizeN = \<lparr>emitted = [], thrown = None\<rparr>"

definition fresh_service :: wasm_service where
  "fresh_service = \<lparr>module = None, wasmLoaded = False, capturedKeystream = None\<rparr>"

definition stale_service :: "wasm_module \<Rightarrow> wasm_service" where
  "stale_service m = \<lparr>module = Some m, wasmLoaded = True, capturedKeystream = Some [7, 7, 7]\<rparr>"

theorem getKeystream_returns_reversed_capture_witness:
  "snd (getKeystream (Inr \<lparr>WxIsaac64 = Some demo_ctor, asm = None\<rparr>) fresh_service (lit ''k'') 3)
     = Inr [3, 2, 1]
   \<and> (\<exists>s1 m ctor captured.
         init (Inr \<lparr>WxIsaac64 = Some demo_ctor, asm = None\<rparr>) fresh_service = Inr s1 \<and>
         module s1 = Some m \<and> entry_point m = Some ctor \<and>
         emitted (ctor (lit ''k'') 3) \<noteq> [] \<and> captured = last (emitted (ctor (lit ''k'') 3)) \<and>
         [3, 2, 1] = rev captured)"
proof -
  let ?ld = "Inr \<lparr>WxIsaac64 = Some demo_ctor, asm = None\<rparr> :: js_error + wasm_module"
  let ?s' = "fst (getKeystream ?ld fresh_service (lit ''k'') 3)"
  have run: "getKeystream ?ld fresh_service (lit ''k'') 3 = (?s', Inr [3, 2, 1])"
    by (simp add: getKeystream_def init_def fresh_service_def patch_entry_point_def
          demo_ctor_def wasm_isaac_generate_def Let_def)
  from getKeystream_returns_reversed_capture [OF run]
  obtain s1 m ctor captured where
    "init ?ld fresh_service = Inr s1" "module s1 = Some m" "entry_point m = Some ctor"
    "emitted (ctor (lit ''k'') 3) \<noteq> []" "captured = last (emitted (ctor (lit ''k'') 3))"
    "[3, 2, 1] = rev captured"
    by blast
  moreover have "snd (getKeystream ?ld fresh_service (lit ''k'') 3) = Inr [3, 2, 1]"
    by (subst run) simp
  ultimately show ?thesis by blast
qed

text \<open>
  Claim C7. After a successful initialisation, \<open>getKeystream\<close> fails when the entry
  point \<open>WxIsaac64\<close> is found neither on the module nor (the fallback the code tries
  first) under its \<open>asm\<close> exports; it fails when the constructor, \<open>generate\<close> and
  \<open>delete\<close> run to completion without the callback having been called, whatever an
  earlier call had left in \<open>capturedKeystream\<close>; and whenever it returns a buffer the
  callback was called during this call.
\<close>

theorem getKeystream_errors:
  assumes "init loader s0 = Inr s1" and "module s1 = Some m"
  shows "(entry_point m = None \<longrightarrow>
            snd (getKeystream loader s0 key sizeN) = Inl EntryPointNotFound)
       \<and> (\<forall>ctor. entry_point m = Some ctor \<and> thrown (ctor key sizeN) = None \<and>
                 emitted (ctor key sizeN) = [] \<longrightarrow>
            snd (getKeystream loader s0 key sizeN) = Inl CaptureFailed)
       \<and> (\<forall>out. snd (getKeystream loader s0 key sizeN) = Inr out \<longrightarrow>
            (\<exists>ctor. entry_point m = Some ctor \<and> thrown (ctor key sizeN) = None \<and>
                    emitted (ctor key sizeN) \<noteq> []))"
  using assms
  by (auto simp: getKeystream_def entry_point_def Let_def foldl_wasm_isaac_generate
           split: sum.splits option.splits if_splits)

theorem getKeystream_errors_witness:
  "snd (getKeystream (Inr \<lparr>WxIsaac64 = None, asm = Some \<lparr>asm_WxIsaac64 = None\<rparr>\<rparr>)
          fresh_service (lit ''k'') 3) = Inl EntryPointNotFound
   \<and> snd (getKeystream (Inl (InitError [])) (stale_service \<lparr>WxIsaac64 = Some silent_ctor, asm = None\<rparr>)
          (lit ''k'') 3) = Inl CaptureFailed
   \<and> (\<exists>ctor. entry_point \<lparr>WxIsaac64 = None, asm = Some \<lparr>asm_WxIsaac64 = Some demo_ctor\<rparr>\<rparr> = Some ctor \<and>
              emitted (ctor (lit ''k'') 3) \<noteq> [])
   \<and> snd (getKeystream (Inr \<lparr>WxIsaac64 = None, asm = Some \<lparr>asm_WxIsaac64 = Some demo_ctor\<rparr>\<rparr>)
          fresh_service (lit ''k'') 3) = Inr [3, 2, 1]"
proof -
  let ?m1 = "\<lparr>WxIsaac64 = None, asm = Some \<lparr>asm_WxIsaac64 = None\<rparr>\<rparr>"
  let ?m2 = "\<lparr>WxIsaac64 = Some silent_ctor, asm = None\<rparr>"
  let ?m3 = "\<lparr>WxIsaac64 = None, asm = Some \<lparr>asm_WxIsaac64 = Some demo_ctor\<rparr>\<rparr>"
  have i1: "init (Inr ?m1) fresh_service = Inr \<lparr>module = Some ?m1, wasmLoaded = True, capturedKeystream = None\<rparr>"
    by (simp add: init_def fresh_service_def)
  have e1: "entry_point ?m1 = None"
    by (simp add: entry_point_def patch_entry_point_def)
  have a: "snd (getKeystream (Inr ?m1) fresh_service (lit ''k'') 3) = Inl EntryPointNotFound"
    using getKeystream_errors [OF i1, of ?m1 "lit ''k''" 3] e1 by simp
  have i2: "init (Inl (InitError [])) (stale_service ?m2) = Inr (stale_service ?m2)"
    by (simp add: init_def stale_service_def)
  have e2: "entry_point ?m2 = Some silent_ctor"
    by (simp add: entry_point_def patch_entry_point_def)
  have b: "snd (getKeystream (Inl (InitError [])) (stale_service ?m2) (lit ''k'') 3) = Inl CaptureFailed"
    using getKeystream_errors [OF i2, of ?m2 "lit ''k''" 3] e2
    by (simp add: stale_service_def silent_ctor_def)
  have i3: "init (Inr ?m3) fresh_service = Inr \<lparr>module = Some ?m3, wasmLoaded = True, capturedKeystream = None\<rparr>"
    by (simp add: init_def fresh_service_def)
  have r3: "snd (getKeystream (Inr ?m3) fresh_service (lit ''k'') 3) = Inr [3, 2, 1]"
    by (simp add: getKeystream_def init_def fresh_service_def patch_entry_point_def
          demo_ctor_def wasm_isaac_generate_def Let_def)
  have c: "\<exists>ctor. entry_point ?m3 = Some ctor \<and> emitted (ctor (lit ''k'') 3) \<noteq> []"
    using getKeystream_errors [OF i3, of ?m3 "lit ''k''" 3] r3 by auto
  from a b c r3 show ?thesis by blast
qed

section \<open>Properties of the image sniffer\<close>

lemma take_prefix: "take n buf = xs \<Longrightarrow> \<exists>r. buf = xs @ r"
  by (metis append_take_drop_id)

text \<open>A buffer that starts with one of the five signatures gets that format's extension.\<close>

lemma detectImageExt_jpg:
  assumes "take 3 buf = [0xff, 0xd8, 0xff]"
  shows "detectImageExt buf = lit ''.jpg''"
proof -
  obtain r where "buf = [0xff, 0xd8, 0xff] @ r" using take_prefix [OF assms] by blast
  then show ?thesis by (simp add: detectImageExt_def)
qed

lemma detectImageExt_png:
  assumes "take 8 buf = png_signature"
  shows "detectImageExt buf = lit ''.png''"
proof -
  obtain r where "buf = png_signature @ r" using take_prefix [OF assms] by blast
  then show ?thesis by (simp add: detectImageExt_def subarray_def png_signature_def)
qed

lemma detectImageExt_gif:
  assumes "take 6 buf = ascii_bytes ''GIF87a'' \<or> take 6 buf = ascii_bytes ''GIF89a''"
  shows "detectImageExt buf = lit ''.gif''"
  using assms
proof (elim disjE)
  assume "take 6 buf = ascii_bytes ''GIF87a''"
  then obtain r where "buf = ascii_bytes ''GIF87a'' @ r" using take_prefix by blast
  then show ?thesis
    by (simp add: detectImageExt_def subarray_def png_signature_def ascii_bytes_def
          toString_ascii_def lit_def)
next
  assume "take 6 buf = ascii_bytes ''GIF89a''"
  then obtain r where "buf = ascii_bytes ''GIF89a'' @ r" using take_prefix by blast
  then show ?thesis
    by (simp add: detectImageExt_def subarray_def png_signature_def ascii_bytes_def
          toString_ascii_def lit_def)
qed

lemma detectImageExt_webp:
  assumes a: "take 4 buf = ascii_bytes ''RIFF''"
    and b: "take 4 (drop 8 buf) = ascii_bytes ''WEBP''"
  shows "detectImageExt buf = lit ''.webp''"
proof -
  have "length (take 4 (drop 8 buf)) = 4" by (simp only: b) (simp add: ascii_bytes_def)
  then have l: "length buf \<ge> 12" by simp
  obtain r where r: "buf = ascii_bytes ''RIFF'' @ r" using take_prefix [OF a] by blast
  have b': "subarray buf 8 12 = ascii_bytes ''WEBP''" using b by (simp add: subarray_def)
  have a': "subarray buf 0 4 = ascii_bytes ''RIFF''" using a by (simp add: subarray_def)
  have h: "buf ! 0 = 0x52" by (subst r) (simp add: ascii_bytes_def)
  have p: "subarray buf 0 8 \<noteq> png_signature"
    by (subst r) (simp add: subarray_def ascii_bytes_def png_signature_def)
  have g: "subarray buf 0 6 = 0x52 # 0x49 # 0x46 # 0x46 # take 2 r"
    by (subst r) (simp add: subarray_def ascii_bytes_def)
  show ?thesis using l h p
    by (simp add: detectImageExt_def a' b' g) (simp add: ascii_bytes_def toString_ascii_def lit_def)
qed

lemma detectImageExt_bmp:
  assumes "take 2 buf = ascii_bytes ''BM''"
  shows "detectImageExt buf = lit ''.bmp''"
proof -
  obtain r where r: "buf = ascii_bytes ''BM'' @ r" using take_prefix [OF assms] by blast
  show ?thesis
    by (subst r)
       (auto simp add: detectImageExt_def subarray_def png_signature_def ascii_bytes_def
          toString_ascii_def lit_def)
qed

text \<open>
  Claim C8. The five signatures are recognised, but the default does not hold for every
  other buffer. The GIF and WEBP tests decode the bytes with \<open>toString('ascii')\<close>, which
  clears the high bit of each byte before comparing, where the JPEG, PNG and BMP tests
  compare the bytes themselves. The six bytes \<open>C7 49 46 38 39 61\<close> are none of the
  signatures (the first byte is not \<open>G\<close>, 0x47), yet they decode to \<open>GIF89a\<close> and the
  buffer is given \<open>.gif\<close> instead of the default \<open>.jpg\<close>.
\<close>

theorem detectImageExt_high_bit_gif:
  "detectImageExt [0xC7, 0x49, 0x46, 0x38, 0x39, 0x61] = lit ''.gif''
   \<and> take 6 [0xC7, 0x49, 0x46, 0x38, 0x39, 0x61 :: byte] \<noteq> ascii_bytes ''GIF87a''
   \<and> take 6 [0xC7, 0x49, 0x46, 0x38, 0x39, 0x61 :: byte] \<noteq> ascii_bytes ''GIF89a''
   \<and> take 3 [0xC7, 0x49, 0x46, 0x38, 0x39, 0x61 :: byte] \<noteq> [0xff, 0xd8, 0xff]
   \<and> take 2 [0xC7, 0x49, 0x46, 0x38, 0x39, 0x61 :: byte] \<noteq> ascii_bytes ''BM''
   \<and> take 4 [0xC7, 0x49, 0x46, 0x38, 0x39, 0x61 :: byte] \<noteq> ascii_bytes ''RIFF''
   \<and> take 8 [0xC7, 0x49, 0x46, 0x38, 0x39, 0x61 :: byte] \<noteq> png_signature"
  by (simp add: detectImageExt_def subarray_def toString_ascii_def lit_def png_signature_def
        ascii_bytes_def)

section \<open>Properties of the varint reader\<close>

lemma ulp_small: "n < 2 ^ 53 \<Longrightarrow> ulp n = 1"
  by (simp add: ulp.simps)

lemma round_double_small: "n < 2 ^ 53 \<Longrightarrow> round_double n = n"
  by (simp add: round_double_def ulp_small)

lemma unat_and_7f: "unat ((b::byte) AND 0x7f) < 128"
proof -
  have "unat (b AND 0x7f) \<le> unat (0x7f :: byte)"
    by (rule word_and_le1 [THEN word_le_nat_alt [THEN iffD1]])
  then show ?thesis by simp
qed

lemma base128_bound: "base128 bs < 128 ^ length bs"
proof (induction bs)
  case Nil
  then show ?case by simp
next
  case (Cons b bs)
  have "unat (b AND 0x7f) + 128 * base128 bs < 128 + 128 * base128 bs"
    using unat_and_7f [of b] by simp
  also have "\<dots> = 128 * (1 + base128 bs)" by simp
  also have "\<dots> \<le> 128 * 128 ^ length bs"
    using Cons.IH by (intro mult_le_mono2) simp
  finally show ?case by simp
qed

lemma base128_snoc: "base128 (bs @ [b]) = base128 bs + unat (b AND 0x7f) * 128 ^ length bs"
  by (induction bs) (simp_all add: algebra_simps)

lemma take_Suc_drop:
  "offset + k < length buffer \<Longrightarrow>
   take (Suc k) (drop offset buffer) = take k (drop offset buffer) @ [buffer ! (offset + k)]"
  by (simp add: take_Suc_conv_app_nth)

lemma pow128: "(128::nat) ^ k = 2 ^ (7 * k)"
  by (simp add: power_mult)

lemma readVarint_loop_stop:
  "\<not> (pos < limit \<and> shift \<le> 53) \<Longrightarrow>
   readVarint_loop buffer limit val shift pos inspected = (None, inspected)"
  by (subst readVarint_loop.simps) (simp only: if_False)

lemma readVarint_loop_step:
  "pos < limit \<Longrightarrow> shift \<le> 53 \<Longrightarrow>
   readVarint_loop buffer limit val shift pos inspected =
     (if bitand (byte_at buffer pos) 0x80 = 0
      then (Some \<lparr>v_value = round_double (val + bitand (byte_at buffer pos) 0x7f * 2 ^ shift),
                  v_next = pos + 1\<rparr>, inspected @ [pos])
      else readVarint_loop buffer limit
             (round_double (val + bitand (byte_at buffer pos) 0x7f * 2 ^ shift))
             (shift + 7) (pos + 1) (inspected @ [pos]))"
  by (subst readVarint_loop.simps) (simp add: Let_def)

lemma readVarint_loop_inv:
  assumes "limit \<le> length buffer" "shift = 7 * k" "pos = offset + k"
    "k \<le> 7 \<Longrightarrow> val = base128 (take k (drop offset buffer))"
    "inspected = [offset..<offset + k]"
    "\<forall>i<k. high_bit_set buffer (offset + i)"
    "k \<le> 8" "k = 0 \<or> offset + k \<le> limit"
  shows "\<exists>n. snd (readVarint_loop buffer limit val shift pos inspected) = [offset..<offset + n]
           \<and> k \<le> n \<and> n \<le> 8 \<and> (n = 0 \<or> offset + n \<le> limit)
           \<and> (case fst (readVarint_loop buffer limit val shift pos inspected) of
                 None \<Rightarrow> (\<forall>i<n. high_bit_set buffer (offset + i))
               | Some r \<Rightarrow> k < n \<and> v_next r = offset + n
                    \<and> v_value r = round_double (base128 (take n (drop offset buffer)))
                    \<and> \<not> high_bit_set buffer (offset + n - 1))"
  using assms
proof (induction buffer limit val shift pos inspected arbitrary: k
       rule: readVarint_loop.induct)
  case (1 buffer limit val shift pos inspected)
  show ?case
  proof (cases "pos < limit \<and> shift \<le> 53")
    case False
    have r: "readVarint_loop buffer limit val shift pos inspected = (None, inspected)"
      using False by (rule readVarint_loop_stop)
    show ?thesis
      unfolding r using "1.prems" by (intro exI [of _ k]) simp
  next
    case True
    then have lt: "pos < limit" and sh: "shift \<le> 53" by simp_all
    have k7: "k \<le> 7" using sh "1.prems"(2) by simp
    have inb: "offset + k < length buffer" using lt "1.prems"(1,3) by simp
    let ?b = "buffer ! (offset + k)"
    have at: "byte_at buffer pos = Some ?b"
      using inb "1.prems"(3) by (simp add: byte_at_def)
    have valk: "val = base128 (take k (drop offset buffer))"
      using "1.prems"(4) k7 by simp
    have lenk: "length (take k (drop offset buffer)) = k"
      using inb by simp
    have sum: "val + bitand (byte_at buffer pos) 0x7f * 2 ^ shift
               = base128 (take (Suc k) (drop offset buffer))"
      using inb lenk
      by (simp add: at bitand_def valk take_Suc_drop base128_snoc pow128 "1.prems"(2))
    let ?val' = "round_double (base128 (take (Suc k) (drop offset buffer)))"
    have insp: "inspected @ [pos] = [offset..<offset + Suc k]"
      using "1.prems"(3,5) by simp
    show ?thesis
    proof (cases "bitand (byte_at buffer pos) 0x80 = 0")
      case stop: True
      have r: "readVarint_loop buffer limit val shift pos inspected
               = (Some \<lparr>v_value = ?val', v_next = pos + 1\<rparr>, inspected @ [pos])"
        using readVarint_loop_step [OF lt sh, of buffer val inspected] stop sum by simp
      have nc: "\<not> high_bit_set buffer (offset + k)"
        using stop by (simp add: at bitand_def high_bit_set_def unat_eq_0)
      show ?thesis
        unfolding r using insp k7 lt "1.prems"(3) nc
        by (intro exI [of _ "Suc k"]) simp
    next
      case go: False
      have r: "readVarint_loop buffer limit val shift pos inspected
               = readVarint_loop buffer limit ?val' (shift + 7) (pos + 1) (inspected @ [pos])"
        using readVarint_loop_step [OF lt sh, of buffer val inspected] go sum by simp
      have c: "high_bit_set buffer (offset + k)"
        using go by (simp add: at bitand_def high_bit_set_def unat_eq_0)
      have small: "Suc k \<le> 7 \<Longrightarrow> ?val' = base128 (take (Suc k) (drop offset buffer))"
      proof -
        assume k6: "Suc k \<le> 7"
        have "base128 (take (Suc k) (drop offset buffer)) < 128 ^ Suc k"
          using base128_bound [of "take (Suc k) (drop offset buffer)"] inb by simp
        also have "(128::nat) ^ Suc k \<le> 128 ^ 7"
          using k6 by (intro power_increasing) simp_all
        also have "(128::nat) ^ 7 < 2 ^ 53" by simp
        finally show ?thesis by (rule round_double_small)
      qed
      have allc: "\<forall>i<Suc k. high_bit_set buffer (offset + i)"
        using "1.prems"(6) c by (simp add: less_Suc_eq)
      let ?v = "round_double (val + bitand (byte_at buffer pos) 0x7f * 2 ^ shift)"
      have p2: "shift + 7 = 7 * Suc k" using "1.prems"(2) by simp
      have p3: "pos + 1 = offset + Suc k" using "1.prems"(3) by simp
      have p4: "Suc k \<le> 7 \<Longrightarrow> ?v = base128 (take (Suc k) (drop offset buffer))"
        using small by (simp only: sum)
      have p7: "Suc k \<le> 8" using k7 by simp
      have p8: "Suc k = 0 \<or> offset + Suc k \<le> limit" using lt "1.prems"(3) by simp
      note IH0 = "1.IH" [OF True refl refl refl refl go "1.prems"(1) p2 p3 p4 insp allc p7 p8]
      have IH: "\<exists>n. snd (readVarint_loop buffer limit ?val' (shift + 7) (pos + 1) (inspected @ [pos]))
                    = [offset..<offset + n]
           \<and> Suc k \<le> n \<and> n \<le> 8 \<and> (n = 0 \<or> offset + n \<le> limit)
           \<and> (case fst (readVarint_loop buffer limit ?val' (shift + 7) (pos + 1) (inspected @ [pos])) of
                 None \<Rightarrow> (\<forall>i<n. high_bit_set buffer (offset + i))
               | Some r \<Rightarrow> Suc k < n \<and> v_next r = offset + n
                    \<and> v_value r = round_double (base128 (take n (drop offset buffer)))
                    \<and> \<not> high_bit_set buffer (offset + n - 1))"
        using IH0 by (simp only: sum)
      from IH
      obtain n where n: "snd (readVarint_loop buffer limit ?val' (shift + 7) (pos + 1) (inspected @ [pos]))
                    = [offset..<offset + n]" "Suc k \<le> n" "n \<le> 8" "n = 0 \<or> offset + n \<le> limit"
           "case fst (readVarint_loop buffer limit ?val' (shift + 7) (pos + 1) (inspected @ [pos])) of
                 None \<Rightarrow> (\<forall>i<n. high_bit_set buffer (offset + i))
               | Some r \<Rightarrow> Suc k < n \<and> v_next r = offset + n
                    \<and> v_value r = round_double (base128 (take n (drop offset buffer)))
                    \<and> \<not> high_bit_set buffer (offset + n - 1)"
        by blast
      show ?thesis
        unfolding r using n by (intro exI [of _ n]) (auto split: option.splits)
    qed
  qed
qed

text \<open>
  Claim C9, as the code has it. For a limit within the buffer (every call in the
  service passes the buffer's length), \<open>readVarint\<close> reads the buffer at consecutive
  indices from \<open>offset\<close>, at most 8 of them and all below \<open>limit\<close>; it returns null exactly
  when every byte it has read has the continuation bit set; and a result has
  \<open>offset < next \<le> limit\<close> and holds the base-128 little-endian value of the bytes from
  \<open>offset\<close> up to \<open>next\<close>, rounded to the nearest double: the exact value whenever that is
  below \<open>2 ^ 53\<close>, as it always is when at most 7 bytes were consumed.
\<close>

theorem readVarint_within_limit:
  assumes "limit \<le> length buffer"
  shows "\<exists>n\<le>8. readVarint_inspected buffer offset limit = [offset..<offset + n]
          \<and> (\<forall>i \<in> set (readVarint_inspected buffer offset limit). i < limit)
          \<and> (readVarint buffer offset limit = None \<longleftrightarrow>
               (\<forall>i \<in> set (readVarint_inspected buffer offset limit). high_bit_set buffer i))
          \<and> (\<forall>r. readVarint buffer offset limit = Some r \<longrightarrow>
                offset < v_next r \<and> v_next r \<le> limit \<and> v_next r = offset + n \<and>
                v_value r = round_double (base128 (subarray buffer offset (v_next r))) \<and>
                (n \<le> 7 \<or> base128 (subarray buffer offset (v_next r)) < 2 ^ 53 \<longrightarrow>
                   v_value r = base128 (subarray buffer offset (v_next r))))"
proof -
  let ?R = "readVarint_loop buffer limit 0 0 offset []"
  have "\<exists>n. snd ?R = [offset..<offset + n]
           \<and> 0 \<le> n \<and> n \<le> 8 \<and> (n = 0 \<or> offset + n \<le> limit)
           \<and> (case fst ?R of
                 None \<Rightarrow> (\<forall>i<n. high_bit_set buffer (offset + i))
               | Some r \<Rightarrow> 0 < n \<and> v_next r = offset + n
                    \<and> v_value r = round_double (base128 (take n (drop offset buffer)))
                    \<and> \<not> high_bit_set buffer (offset + n - 1))"
    by (rule readVarint_loop_inv [OF assms, of 0 0 offset offset 0 "[]"]) simp_all
  then obtain n where n: "snd ?R = [offset..<offset + n]" "n \<le> 8" "n = 0 \<or> offset + n \<le> limit"
    and c: "case fst ?R of
                 None \<Rightarrow> (\<forall>i<n. high_bit_set buffer (offset + i))
               | Some r \<Rightarrow> 0 < n \<and> v_next r = offset + n
                    \<and> v_value r = round_double (base128 (take n (drop offset buffer)))
                    \<and> \<not> high_bit_set buffer (offset + n - 1)"
    by blast
  have ins: "readVarint_inspected buffer offset limit = [offset..<offset + n]"
    using n(1) by (simp add: readVarint_inspected_def)
  have bound: "\<forall>i \<in> set (readVarint_inspected buffer offset limit). i < limit"
    using n(3) by (auto simp: ins)
  have none: "readVarint buffer offset limit = None \<longleftrightarrow>
               (\<forall>i \<in> set (readVarint_inspected buffer offset limit). high_bit_set buffer i)"
  proof (cases "fst ?R")
    case None
    then have "\<forall>i<n. high_bit_set buffer (offset + i)" using c by simp
    have "\<forall>i \<in> set [offset..<offset + n]. high_bit_set buffer i"
    proof
      fix i assume "i \<in> set [offset..<offset + n]"
      then have "i - offset < n" and "offset + (i - offset) = i" by auto
      with \<open>\<forall>i<n. high_bit_set buffer (offset + i)\<close> show "high_bit_set buffer i" by metis
    qed
    then show ?thesis using None by (simp add: readVarint_def ins)
  next
    case (Some r)
    then have "0 < n" "\<not> high_bit_set buffer (offset + n - 1)" using c by simp_all
    moreover from \<open>0 < n\<close> have "offset + n - 1 \<in> set [offset..<offset + n]" by simp
    ultimately have "\<not> (\<forall>i \<in> set [offset..<offset + n]. high_bit_set buffer i)" by blast
    then show ?thesis using Some by (simp add: readVarint_def ins)
  qed
  have some: "\<forall>r. readVarint buffer offset limit = Some r \<longrightarrow>
                offset < v_next r \<and> v_next r \<le> limit \<and> v_next r = offset + n \<and>
                v_value r = round_double (base128 (subarray buffer offset (v_next r))) \<and>
                (n \<le> 7 \<or> base128 (subarray buffer offset (v_next r)) < 2 ^ 53 \<longrightarrow>
                   v_value r = base128 (subarray buffer offset (v_next r)))"
  proof (intro allI impI)
    fix r assume "readVarint buffer offset limit = Some r"
    then have f: "fst ?R = Some r" by (simp add: readVarint_def)
    with c have r: "0 < n" "v_next r = offset + n"
      "v_value r = round_double (base128 (take n (drop offset buffer)))" by simp_all
    have sub: "subarray buffer offset (v_next r) = take n (drop offset buffer)"
      by (simp add: subarray_def r(2))
    have le: "offset + n \<le> limit" using n(3) r(1) by simp
    have small: "n \<le> 7 \<Longrightarrow> base128 (take n (drop offset buffer)) < 2 ^ 53"
    proof -
      assume n7: "n \<le> 7"
      have "base128 (take n (drop offset buffer)) < 128 ^ length (take n (drop offset buffer))"
        by (rule base128_bound)
      also have "\<dots> \<le> (128::nat) ^ 7" using n7 by (intro power_increasing) simp_all
      also have "(128::nat) ^ 7 < 2 ^ 53" by simp
      finally show ?thesis .
    qed
    show "offset < v_next r \<and> v_next r \<le> limit \<and> v_next r = offset + n \<and>
                v_value r = round_double (base128 (subarray buffer offset (v_next r))) \<and>
                (n \<le> 7 \<or> base128 (subarray buffer offset (v_next r)) < 2 ^ 53 \<longrightarrow>
                   v_value r = base128 (subarray buffer offset (v_next r)))"
    proof (intro conjI impI)
      show "offset < v_next r" using r by simp
      show "v_next r \<le> limit" using r le by simp
      show "v_next r = offset + n" by (rule r(2))
      show "v_value r = round_double (base128 (subarray buffer offset (v_next r)))"
        unfolding sub by (rule r(3))
      assume "n \<le> 7 \<or> base128 (subarray buffer offset (v_next r)) < 2 ^ 53"
      then have "base128 (take n (drop offset buffer)) < 2 ^ 53"
        unfolding sub using small by blast
      then show "v_value r = base128 (subarray buffer offset (v_next r))"
        unfolding sub r(3) by (rule round_double_small)
    qed
  qed
  show ?thesis
    by (intro exI [of _ n] conjI) (rule n(2), rule ins, rule bound, rule none, rule some)
qed

text \<open>
  Claim C9 as stated fails in two places. With a limit beyond the buffer (here 2, on a
  buffer of one byte), the loop reads index 1, which is at \<open>min limit (length buffer)\<close>:
  the read gives \<open>undefined\<close>, which the bit operations take for 0, so a result with
  \<open>next = 2\<close> comes back. And an 8-byte varint whose exact value needs more than 53 bits
  is rounded by the double addition: the value returned is one less than the base-128
  interpretation of the bytes consumed.
\<close>

theorem readVarint_counterexample:
  "readVarint_inspected [0x80] 0 2 = [0, 1]
   \<and> min 2 (length [0x80 :: byte]) = 1
   \<and> readVarint [0x80] 0 2 = Some \<lparr>v_value = 0, v_next = 2\<rparr>
   \<and> readVarint [0x81, 0x80, 0x80, 0x80, 0x80, 0x80, 0x80, 0x7f] 0 8
       = Some \<lparr>v_value = 71494644084506624, v_next = 8\<rparr>
   \<and> base128 [0x81, 0x80, 0x80, 0x80, 0x80, 0x80, 0x80, 0x7f] = 71494644084506625"
proof -
  have a: "readVarint_inspected [0x80] 0 2 = [0, 1]" by code_simp
  have b: "readVarint [0x80] 0 2 = Some \<lparr>v_value = 0, v_next = 2\<rparr>" by code_simp
  have c: "readVarint [0x81, 0x80, 0x80, 0x80, 0x80, 0x80, 0x80, 0x7f] 0 8
       = Some \<lparr>v_value = 71494644084506624, v_next = 8\<rparr>" by code_simp
  have d: "base128 [0x81, 0x80, 0x80, 0x80, 0x80, 0x80, 0x80, 0x7f] = 71494644084506625" by simp
  have e: "min 2 (length [0x80 :: byte]) = 1" by simp
  from a e b c d show ?thesis by (intro conjI)
qed

text \<open>The two-byte varint \<open>AC 02\<close> (300), read with the limit at the buffer's length.\<close>

theorem readVarint_within_limit_witness:
  "(3::nat) \<le> length [0xAC, 0x02, 0x05 :: byte]
   \<and> readVarint [0xAC, 0x02, 0x05] 0 3 = Some \<lparr>v_value = 300, v_next = 2\<rparr>
   \<and> readVarint_inspected [0xAC, 0x02, 0x05] 0 3 = [0, 1]
   \<and> base128 (subarray [0xAC, 0x02, 0x05] 0 2) = 300"
proof -
  have h: "(3::nat) \<le> length [0xAC, 0x02, 0x05 :: byte]" by simp
  have r: "readVarint [0xAC, 0x02, 0x05] 0 3 = Some \<lparr>v_value = 300, v_next = 2\<rparr>" by code_simp
  have i: "readVarint_inspected [0xAC, 0x02, 0x05] 0 3 = [0, 1]" by code_simp
  from readVarint_within_limit [OF h, of 0] obtain n where
    s: "\<forall>r. readVarint [0xAC, 0x02, 0x05] 0 3 = Some r \<longrightarrow>
                0 < v_next r \<and> v_next r \<le> 3 \<and> v_next r = 0 + n \<and>
                v_value r = round_double (base128 (subarray [0xAC, 0x02, 0x05] 0 (v_next r))) \<and>
                (n \<le> 7 \<or> base128 (subarray [0xAC, 0x02, 0x05] 0 (v_next r)) < 2 ^ 53 \<longrightarrow>
                   v_value r = base128 (subarray [0xAC, 0x02, 0x05] 0 (v_next r)))"
    by (elim exE conjE)
  note t = s [rule_format, OF r]
  have A: "v_next \<lparr>v_value = 300, v_next = 2\<rparr> = 0 + n" using t by (elim conjE)
  have B: "n \<le> 7 \<or> base128 (subarray [0xAC, 0x02, 0x05] 0 (v_next \<lparr>v_value = 300, v_next = 2\<rparr>)) < 2 ^ 53 \<longrightarrow>
           v_value \<lparr>v_value = 300, v_next = 2\<rparr> = base128 (subarray [0xAC, 0x02, 0x05] 0 (v_next \<lparr>v_value = 300, v_next = 2\<rparr>))"
    using t by (elim conjE)
  have n: "n = 2" using A by simp
  have "v_value \<lparr>v_value = 300, v_next = 2\<rparr> = base128 (subarray [0xAC, 0x02, 0x05] 0 (v_next \<lparr>v_value = 300, v_next = 2\<rparr>))"
    by (rule mp [OF B]) (simp add: n)
  then have "(300::nat) = base128 (subarray [0xAC, 0x02, 0x05] 0 2)"
    by (simp only: varint.select_convs)
  then have "base128 (subarray [0xAC, 0x02, 0x05] 0 2) = 300" by (rule sym)
  with h r i show ?thesis by (intro conjI)
qed

section \<open>Properties of the paginated cursor\<close>

lemma fetch_loop_stop:
  "\<not> (length allRows < limit \<and> hasMore) \<Longrightarrow>
   fetch_loop cursor offset limit n allRows hasMore skipped
     = Inr \<lparr>end_allRows = allRows, end_hasMore = hasMore, end_fetched = n\<rparr>"
  by (subst fetch_loop.simps) (simp only: if_False)

lemma fetch_loop_throws:
  "length allRows < limit \<Longrightarrow> hasMore \<Longrightarrow> fetch cursor n = FetchThrows e \<Longrightarrow>
   fetch_loop cursor offset limit n allRows hasMore skipped = Inl e"
  by (subst fetch_loop.simps) simp

lemma fetch_loop_unusable:
  "length allRows < limit \<Longrightarrow> hasMore \<Longrightarrow> fetch cursor n = Batch b \<Longrightarrow> \<not> usable b \<Longrightarrow>
   fetch_loop cursor offset limit n allRows hasMore skipped
     = Inr \<lparr>end_allRows = allRows, end_hasMore = False, end_fetched = n + 1\<rparr>"
  by (subst fetch_loop.simps) simp

lemma fetch_loop_skip_whole:
  "length allRows < limit \<Longrightarrow> hasMore \<Longrightarrow> fetch cursor n = Batch b \<Longrightarrow> usable b \<Longrightarrow>
   skipped < offset \<Longrightarrow> length (the (b_rows b)) \<le> offset - skipped \<Longrightarrow>
   fetch_loop cursor offset limit n allRows hasMore skipped
     = fetch_loop cursor offset limit (n + 1) allRows (b_hasMore b = Some True)
         (skipped + length (the (b_rows b)))"
  by (subst fetch_loop.simps) (simp add: Let_def)

lemma fetch_loop_skip_part:
  "length allRows < limit \<Longrightarrow> hasMore \<Longrightarrow> fetch cursor n = Batch b \<Longrightarrow> usable b \<Longrightarrow>
   skipped < offset \<Longrightarrow> \<not> length (the (b_rows b)) \<le> offset - skipped \<Longrightarrow>
   fetch_loop cursor offset limit n allRows hasMore skipped
     = fetch_loop cursor offset limit (n + 1) (allRows @ drop (offset - skipped) (the (b_rows b)))
         (b_hasMore b = Some True) offset"
  by (subst fetch_loop.simps) (simp add: Let_def)

lemma fetch_loop_take:
  "length allRows < limit \<Longrightarrow> hasMore \<Longrightarrow> fetch cursor n = Batch b \<Longrightarrow> usable b \<Longrightarrow>
   \<not> skipped < offset \<Longrightarrow>
   fetch_loop cursor offset limit n allRows hasMore skipped
     = fetch_loop cursor offset limit (n + 1) (allRows @ the (b_rows b))
         (b_hasMore b = Some True) skipped"
  by (subst fetch_loop.simps) (simp add: Let_def)

lemma fetch_loop_signal:
  assumes "fetch_loop cursor offset limit n allRows hasMore skipped = Inr st"
    and "last_signal cursor n hasMore \<or> (length allRows < limit \<and> hasMore)"
  shows "last_signal cursor (end_fetched st) (end_hasMore st)"
  using assms
proof (induction cursor offset limit n allRows hasMore skipped rule: fetch_loop.induct)
  case (1 cursor offset limit n allRows hasMore skipped)
  show ?case
  proof (cases "length allRows < limit \<and> hasMore")
    case False
    with "1.prems"(2) have ls: "last_signal cursor n hasMore" by blast
    from "1.prems"(1) fetch_loop_stop [OF False, of cursor offset n skipped]
    have "st = \<lparr>end_allRows = allRows, end_hasMore = hasMore, end_fetched = n\<rparr>" by simp
    with ls show ?thesis by simp
  next
    case True
    then have c: "length allRows < limit" "hasMore" by simp_all
    show ?thesis
    proof (cases "fetch cursor n")
      case (FetchThrows e)
      with "1.prems"(1) fetch_loop_throws [OF c FetchThrows, of offset skipped]
      show ?thesis by simp
    next
      case (Batch b)
      show ?thesis
      proof (cases "usable b")
        case False
        from "1.prems"(1) fetch_loop_unusable [OF c Batch False, of offset skipped]
        have "st = \<lparr>end_allRows = allRows, end_hasMore = False, end_fetched = n + 1\<rparr>" by simp
        then show ?thesis using Batch False by (simp add: last_signal_def signalled_more_def)
      next
        case u: True
        have ls': "last_signal cursor (n + 1) (b_hasMore b = Some True)"
          using Batch u by (simp add: last_signal_def signalled_more_def)
        show ?thesis
        proof (cases "skipped < offset")
          case s: True
          show ?thesis
          proof (cases "length (the (b_rows b)) \<le> offset - skipped")
            case w: True
            from "1.prems"(1) fetch_loop_skip_whole [OF c Batch u s w]
            have e: "fetch_loop cursor offset limit (n + 1) allRows (b_hasMore b = Some True)
                       (skipped + length (the (b_rows b))) = Inr st" by simp
            show ?thesis
              by (rule "1.IH"(1) [OF True Batch u refl refl s refl w e]) (use ls' in simp)
          next
            case p: False
            from "1.prems"(1) fetch_loop_skip_part [OF c Batch u s p]
            have e: "fetch_loop cursor offset limit (n + 1)
                       (allRows @ drop (offset - skipped) (the (b_rows b)))
                       (b_hasMore b = Some True) offset = Inr st" by simp
            show ?thesis
              by (rule "1.IH"(2) [OF True Batch u refl refl s refl p e]) (use ls' in simp)
          qed
        next
          case t: False
          from "1.prems"(1) fetch_loop_take [OF c Batch u t]
          have e: "fetch_loop cursor offset limit (n + 1) (allRows @ the (b_rows b))
                     (b_hasMore b = Some True) skipped = Inr st" by simp
          show ?thesis
            by (rule "1.IH"(3) [OF True Batch u refl refl t e]) (use ls' in simp)
        qed
      qed
    qed
  qed
qed

text \<open>
  Claim C2, as the code has it. For \<open>limit \<ge> 1\<close>, a page that \<open>fetchMessagesBatch\<close> returns
  holds the messages of at most \<open>limit\<close> rows (the accumulated rows cut to \<open>limit\<close>), at
  least one batch was fetched, and \<open>hasMore\<close> is true exactly when the last batch fetched
  was usable (successful and not empty) and signalled more data, or more than \<open>limit\<close>
  rows had been accumulated.
\<close>

theorem fetchMessagesBatch_page:
  assumes "1 \<le> limit"
    and "fetchMessagesBatch store mapRows talker offset limit startTime endTime ascending = Inr result"
  shows "\<exists>cursor st.
           store talker (batchSize limit) ascending (toSeconds startTime) (toSeconds endTime)
             = Opened cursor \<and>
           fetch_loop cursor offset limit 0 [] True 0 = Inr st \<and>
           r_messages result = mapRows (take limit (end_allRows st)) \<and>
           length (take limit (end_allRows st)) \<le> limit \<and>
           1 \<le> end_fetched st \<and>
           (r_hasMore result \<longleftrightarrow>
              signalled_more (fetch cursor (end_fetched st - 1)) \<or> limit < length (end_allRows st))"
proof -
  from assms(2) obtain cursor st page where
    fr: "fetchRows store talker offset limit startTime endTime ascending = Inr (cursor, st, page)"
    and res: "result = \<lparr>r_messages = mapRows (p_rows page), r_hasMore = p_hasMore page\<rparr>"
    by (auto simp: fetchMessagesBatch_def split: sum.splits)
  from fr have op: "store talker (batchSize limit) ascending (toSeconds startTime) (toSeconds endTime)
             = Opened cursor"
    and lp: "fetch_loop cursor offset limit 0 [] True 0 = Inr st"
    and pg: "page = \<lparr>p_rows = take limit (end_allRows st),
                     p_hasMore = (end_hasMore st \<or> length (end_allRows st) > limit)\<rparr>"
    by (auto simp: fetchRows_def finish_def Let_def split: open_result.splits option.splits sum.splits)
  have "last_signal cursor (end_fetched st) (end_hasMore st)"
    by (rule fetch_loop_signal [OF lp]) (use assms(1) in simp)
  then have f: "1 \<le> end_fetched st"
    and h: "end_hasMore st \<longleftrightarrow> signalled_more (fetch cursor (end_fetched st - 1))"
    by (simp_all add: last_signal_def)
  show ?thesis
    by (intro exI [of _ cursor] exI [of _ st] conjI)
       (rule op, rule lp, simp add: res pg, simp, rule f, simp add: res pg h)
qed

text \<open>
  Claim C2 as stated fails when the last batch fetched signals more data but is empty
  (or unsuccessful): the loop sets \<open>hasMore = false\<close> and stops, whatever the batch's
  flag says, and nothing was trimmed.
\<close>

theorem fetchMessagesBatch_counterexample:
  "fetchRows empty_batch_store (lit ''t'') 0 20 0 0 True
     = Inr (empty_batch_cursor,
            \<lparr>end_allRows = [], end_hasMore = False, end_fetched = 1\<rparr>,
            \<lparr>p_rows = [], p_hasMore = False\<rparr>)
   \<and> fetch empty_batch_cursor 0 = Batch \<lparr>b_success = True, b_rows = Some [], b_hasMore = Some True\<rparr>
   \<and> fetchMessagesBatch empty_batch_store id (lit ''t'') 0 20 0 0 True
     = Inr \<lparr>r_messages = [], r_hasMore = False\<rparr>"
proof -
  have l: "fetch_loop empty_batch_cursor 0 20 0 [] True 0
           = Inr \<lparr>end_allRows = [], end_hasMore = False, end_fetched = 1\<rparr>"
    by (subst fetch_loop.simps) (simp add: empty_batch_cursor_def usable_def)
  have a: "fetchRows empty_batch_store (lit ''t'') 0 20 0 0 True
     = Inr (empty_batch_cursor,
            \<lparr>end_allRows = [], end_hasMore = False, end_fetched = 1\<rparr>,
            \<lparr>p_rows = [], p_hasMore = False\<rparr>)"
    by (simp add: fetchRows_def empty_batch_store_def l finish_def)
       (simp add: empty_batch_cursor_def)
  have b: "fetch empty_batch_cursor 0 = Batch \<lparr>b_success = True, b_rows = Some [], b_hasMore = Some True\<rparr>"
    by (simp add: empty_batch_cursor_def)
  have c: "fetchMessagesBatch empty_batch_store id (lit ''t'') 0 20 0 0 True
     = Inr \<lparr>r_messages = [], r_hasMore = False\<rparr>"
    by (simp add: fetchMessagesBatch_def a)
  from a b c show ?thesis by (intro conjI)
qed

lemma dataset_fetch:
  "fetch (dataset_cursor ds b) n
     = Batch \<lparr>b_success = True, b_rows = Some (take b (drop (n * b) ds)),
              b_hasMore = Some ((n + 1) * b < length ds)\<rparr>"
  by (simp add: dataset_cursor_def)

text \<open>
  Claim C3. Over a dataset of 35 rows served by the store's cursor, a fetch with offset 0
  and limit 20 returns the first 20 rows, and a fetch with offset 20 and limit 20 returns
  the remaining 15 with \<open>hasMore = false\<close>; both open their cursor with batch size
  \<open>min 20 500\<close>.
\<close>

theorem fetch_two_pages_of_35:
  assumes "length ds = 35"
  shows "fetchRows (dataset_store ds) talker 0 20 startTime endTime ascending
           = Inr (dataset_cursor ds (min 20 500),
                  \<lparr>end_allRows = take 20 ds, end_hasMore = True, end_fetched = 1\<rparr>,
                  \<lparr>p_rows = take 20 ds, p_hasMore = True\<rparr>)
       \<and> length (take 20 ds) = 20
       \<and> fetchRows (dataset_store ds) talker 20 20 startTime endTime ascending
           = Inr (dataset_cursor ds (min 20 500),
                  \<lparr>end_allRows = drop 20 ds, end_hasMore = False, end_fetched = 2\<rparr>,
                  \<lparr>p_rows = drop 20 ds, p_hasMore = False\<rparr>)
       \<and> length (drop 20 ds) = 15
       \<and> fetchMessagesBatch (dataset_store ds) mapRows talker 0 20 startTime endTime ascending
           = Inr \<lparr>r_messages = mapRows (take 20 ds), r_hasMore = True\<rparr>
       \<and> fetchMessagesBatch (dataset_store ds) mapRows talker 20 20 startTime endTime ascending
           = Inr \<lparr>r_messages = mapRows (drop 20 ds), r_hasMore = False\<rparr>"
proof -
  have ne: "ds \<noteq> []" using assms by auto
  have l1: "fetch_loop (dataset_cursor ds 20) 0 20 0 [] True 0
            = Inr \<lparr>end_allRows = take 20 ds, end_hasMore = True, end_fetched = 1\<rparr>"
    apply (subst fetch_loop.simps)
    apply (simp add: dataset_fetch usable_def assms ne)
    apply (subst fetch_loop.simps)
    apply (simp add: assms)
    done
  have l2: "fetch_loop (dataset_cursor ds 20) 20 20 0 [] True 0
            = Inr \<lparr>end_allRows = drop 20 ds, end_hasMore = False, end_fetched = 2\<rparr>"
    apply (subst fetch_loop.simps)
    apply (simp add: dataset_fetch usable_def assms ne)
    apply (subst fetch_loop.simps)
    apply (simp add: dataset_fetch usable_def assms ne)
    apply (subst fetch_loop.simps)
    apply (simp add: assms)
    done
  have c: "close_throws (dataset_cursor ds 20) = None" by (simp add: dataset_cursor_def)
  have a: "fetchRows (dataset_store ds) talker 0 20 startTime endTime ascending
           = Inr (dataset_cursor ds (min 20 500),
                  \<lparr>end_allRows = take 20 ds, end_hasMore = True, end_fetched = 1\<rparr>,
                  \<lparr>p_rows = take 20 ds, p_hasMore = True\<rparr>)"
    by (simp add: fetchRows_def dataset_store_def batchSize_def l1 finish_def c)
  have b: "fetchRows (dataset_store ds) talker 20 20 startTime endTime ascending
           = Inr (dataset_cursor ds (min 20 500),
                  \<lparr>end_allRows = drop 20 ds, end_hasMore = False, end_fetched = 2\<rparr>,
                  \<lparr>p_rows = drop 20 ds, p_hasMore = False\<rparr>)"
    by (simp add: fetchRows_def dataset_store_def batchSize_def l2 finish_def c assms)
  have a': "fetchMessagesBatch (dataset_store ds) mapRows talker 0 20 startTime endTime ascending
           = Inr \<lparr>r_messages = mapRows (take 20 ds), r_hasMore = True\<rparr>"
    by (simp add: fetchMessagesBatch_def a)
  have b': "fetchMessagesBatch (dataset_store ds) mapRows talker 20 20 startTime endTime ascending
           = Inr \<lparr>r_messages = mapRows (drop 20 ds), r_hasMore = False\<rparr>"
    by (simp add: fetchMessagesBatch_def b)
  have la: "length (take 20 ds) = 20" and lb: "length (drop 20 ds) = 15"
    using assms by simp_all
  from a la b lb a' b' show ?thesis by (intro conjI)
qed

theorem fetchMessagesBatch_page_witness:
  "(1::nat) \<le> 3
   \<and> fetchMessagesBatch (dataset_store demo_rows) id (lit ''t'') 2 3 0 0 True
       = Inr \<lparr>r_messages = [3, 4, 5], r_hasMore = True\<rparr>
   \<and> (\<exists>cursor st.
         dataset_store demo_rows (lit ''t'') (batchSize 3) True (toSeconds 0) (toSeconds 0) = Opened cursor \<and>
         fetch_loop cursor 2 3 0 [] True 0 = Inr st \<and>
         length (take 3 (end_allRows st)) \<le> 3 \<and>
         1 \<le> end_fetched st \<and>
         (True \<longleftrightarrow> signalled_more (fetch cursor (end_fetched st - 1)) \<or> 3 < length (end_allRows st)))"
proof -
  have h: "(1::nat) \<le> 3" by simp
  have l: "fetch_loop (dataset_cursor demo_rows 3) 2 3 0 [] True 0
           = Inr \<lparr>end_allRows = [3, 4, 5, 6], end_hasMore = True, end_fetched = 2\<rparr>"
    apply (subst fetch_loop.simps)
    apply (simp add: dataset_fetch usable_def demo_rows_def)
    apply (subst fetch_loop.simps)
    apply (simp add: dataset_fetch usable_def demo_rows_def)
    apply (subst fetch_loop.simps)
    apply simp
    done
  have c: "close_throws (dataset_cursor demo_rows 3) = None" by (simp add: dataset_cursor_def)
  have run: "fetchMessagesBatch (dataset_store demo_rows) id (lit ''t'') 2 3 0 0 True
       = Inr \<lparr>r_messages = [3, 4, 5], r_hasMore = True\<rparr>"
    by (simp add: fetchMessagesBatch_def fetchRows_def dataset_store_def batchSize_def l finish_def c)
  from fetchMessagesBatch_page [OF h run] obtain cursor st where
    "dataset_store demo_rows (lit ''t'') (batchSize 3) True (toSeconds 0) (toSeconds 0) = Opened cursor"
    "fetch_loop cursor 2 3 0 [] True 0 = Inr st"
    "length (take 3 (end_allRows st)) \<le> 3"
    "1 \<le> end_fetched st"
    "r_hasMore \<lparr>r_messages = [3, 4, 5 :: nat], r_hasMore = True\<rparr> \<longleftrightarrow>
       signalled_more (fetch cursor (end_fetched st - 1)) \<or> 3 < length (end_allRows st)"
    by blast
  then have "\<exists>cursor st.
         dataset_store demo_rows (lit ''t'') (batchSize 3) True (toSeconds 0) (toSeconds 0) = Opened cursor \<and>
         fetch_loop cursor 2 3 0 [] True 0 = Inr st \<and>
         length (take 3 (end_allRows st)) \<le> 3 \<and>
         1 \<le> end_fetched st \<and>
         (True \<longleftrightarrow> signalled_more (fetch cursor (end_fetched st - 1)) \<or> 3 < length (end_allRows st))"
    by (intro exI [of _ cursor] exI [of _ st]) simp
  with h run show ?thesis by (intro conjI)
qed

theorem fetch_two_pages_of_35_witness:
  "length [0..<35] = 35
   \<and> fetchMessagesBatch (dataset_store [0..<35]) id (lit ''t'') 0 20 0 0 True
       = Inr \<lparr>r_messages = [0..<20], r_hasMore = True\<rparr>
   \<and> fetchMessagesBatch (dataset_store [0..<35]) id (lit ''t'') 20 20 0 0 True
       = Inr \<lparr>r_messages = [20..<35], r_hasMore = False\<rparr>
   \<and> length [20..<35] = 15"
proof -
  have h: "length [0..<35] = 35" by simp
  note t = fetch_two_pages_of_35 [OF h, of "lit ''t''" 0 0 True id]
  have t1: "fetchMessagesBatch (dataset_store [0..<35]) id (lit ''t'') 0 20 0 0 True
       = Inr \<lparr>r_messages = id (take 20 [0..<35]), r_hasMore = True\<rparr>"
    using t by (elim conjE)
  have t2: "fetchMessagesBatch (dataset_store [0..<35]) id (lit ''t'') 20 20 0 0 True
       = Inr \<lparr>r_messages = id (drop 20 [0..<35]), r_hasMore = False\<rparr>"
    using t by (elim conjE)
  have a: "id (take 20 [0..<35]) = [0..<20]" by simp
  have b: "id (drop 20 [0..<35]) = [20..<35]" by simp
  have c: "length [20..<35] = 15" by simp
  from h t1 [unfolded a] t2 [unfolded b] c show ?thesis by (intro conjI)
qed

section \<open>Properties of the messages endpoint\<close>











section \<open>Properties of lower-casing\<close>

text \<open>
  \<open>toLowerCase\<close> on letters outside ASCII: U+00C9 becomes U+00E9, the Kelvin sign U+212A
  becomes \<open>k\<close>, U+0130 becomes \<open>i\<close> followed by U+0307, a capital sigma becomes the final
  sigma after a letter at the end of a word and the plain one elsewhere, and a letter
  of a supplementary plane is lower-cased through its surrogate pair.
\<close>

lemma toLowerCase_samples:
  "toLowerCase ([0xC9] @ lit ''COLE'') = [0xE9] @ lit ''cole''"
  "toLowerCase ([0x212A] @ lit ''abc'') = lit ''kabc''"
  "toLowerCase [0x130] = [0x69, 0x307]"
  "toLowerCase [0x391, 0x3A3] = [0x3B1, 0x3C2]"
  "toLowerCase [0x391, 0x3A3, 0x391] = [0x3B1, 0x3C3, 0x3B1]"
  "toLowerCase [0xD801, 0xDC00] = [0xD801, 0xDC28]"
  "toLowerCase (lit ''Wxid_AbC9'') = lit ''wxid_abc9''"
  by code_simp+

section \<open>Properties of the extended-data parser\<close>

lemma map_has_iff: "map_has m k \<longleftrightarrow> map_of m k \<noteq> None"
  by (simp add: map_has_def map_of_eq_None_iff)

lemma map_of_set_absent:
  "\<not> map_has m k \<Longrightarrow>
   map_of (map_set m k v) k' = (case map_of m k' of Some w \<Rightarrow> Some w | None \<Rightarrow> if k' = k then Some v else None)"
  by (auto simp: map_set_def map_of_append map_add_def split: option.splits)

lemma map_of_store_record:
  "map_of (store_record m rec) k =
     (case map_of m k of Some w \<Rightarrow> Some w
      | None \<Rightarrow> if key_of_record k rec then Some (snd rec) else None)"
proof -
  let ?m1 = "if \<not> map_has m (fst rec) then map_set m (fst rec) (snd rec) else m"
  have m1: "map_of ?m1 k = (case map_of m k of Some w \<Rightarrow> Some w
              | None \<Rightarrow> if k = fst rec then Some (snd rec) else None)"
    by (auto simp: map_of_set_absent map_has_iff split: option.splits)
  have "map_of (store_record m rec) k =
          (case map_of ?m1 k of Some w \<Rightarrow> Some w
           | None \<Rightarrow> if k = toLowerCase (fst rec) then Some (snd rec) else None)"
    unfolding store_record_def Let_def
    by (auto simp: map_of_set_absent map_has_iff split: option.splits)
  then show ?thesis
    unfolding m1 by (auto simp: key_of_record_def split: option.splits)
qed

lemma map_of_foldl_store_record:
  "map_of (foldl store_record m recs) k =
     (case map_of m k of Some w \<Rightarrow> Some w
      | None \<Rightarrow> map_option snd (find (key_of_record k) recs))"
  by (induction recs arbitrary: m) (auto simp: map_of_store_record split: option.splits)

lemma parse_loop_fold:
  "\<exists>new. parse_loop buffer cs i m acc = (foldl store_record m new, acc @ new)"
proof (induction buffer cs i m acc rule: parse_loop.induct)
  case (1 buffer cs i m acc)
  show ?case
  proof (cases "i + 2 < length buffer")
    case False
    then have "parse_loop buffer cs i m acc = (m, acc)"
      by (subst parse_loop.simps) simp
    then show ?thesis by (intro exI [of _ "[]"]) simp
  next
    case True
    obtain i' r where s: "scan_at buffer cs i = (i', r)" by (cases "scan_at buffer cs i")
    show ?thesis
    proof (cases r)
      case None
      have e: "parse_loop buffer cs i m acc = parse_loop buffer cs (i' + 1) m acc"
        using True s None by (subst parse_loop.simps) simp
      from "1.IH"(1) [OF True s [symmetric, unfolded None]] None
      show ?thesis unfolding e by simp
    next
      case (Some rec)
      have e: "parse_loop buffer cs i m acc
               = parse_loop buffer cs (i' + 1) (store_record m rec) (acc @ [rec])"
        using True s Some by (subst parse_loop.simps) simp
      from "1.IH"(2) [OF True s [symmetric, unfolded Some] refl]
      obtain new where "parse_loop buffer cs (i' + 1) (store_record m rec) (acc @ [rec])
                        = (foldl store_record (store_record m rec) new, (acc @ [rec]) @ new)"
        by blast
      then show ?thesis unfolding e by (intro exI [of _ "rec # new"]) simp
    qed
  qed
qed

text \<open>
  Claim C6. The blob \<open>0A\<close>, length of \<open>wxid_abcd\<close>, \<open>wxid_abcd\<close>, \<open>12\<close>, length of
  \<open>Alice1\<close>, \<open>Alice1\<close>, parsed with the candidate \<open>wxid_abcd\<close>, gives a table in which
  the key \<open>wxid_abcd\<close> and its lower-case form (the same string, so the table has one
  entry) map to \<open>Alice1\<close>.
\<close>

theorem parse_example_blob:
  "parseGroupNicknamesFromExtBuffer example_blob [lit ''wxid_abcd'']
     = [(lit ''wxid_abcd'', lit ''Alice1'')]
   \<and> map_get (parseGroupNicknamesFromExtBuffer example_blob [lit ''wxid_abcd'']) (lit ''wxid_abcd'')
       = Some (lit ''Alice1'')
   \<and> map_get (parseGroupNicknamesFromExtBuffer example_blob [lit ''wxid_abcd''])
         (toLowerCase (lit ''wxid_abcd''))
       = Some (lit ''Alice1'')"
proof -
  have a: "parseGroupNicknamesFromExtBuffer example_blob [lit ''wxid_abcd'']
     = [(lit ''wxid_abcd'', lit ''Alice1'')]"
    by code_simp
  have b: "toLowerCase (lit ''wxid_abcd'') = lit ''wxid_abcd''" by code_simp
  show ?thesis unfolding a b by (simp add: map_get_def)
qed

text \<open>
  Claim C10. An entry that is in the table stays as it is for the rest of the scan,
  from any index on; the table returned is the accepted records stored in scan order,
  each key only if absent; so the nickname under a key is that of the earliest accepted
  record whose identifier is the key or becomes it when lower-cased.
\<close>

theorem parse_first_record_wins:
  "(\<forall>i m acc k v. map_get m k = Some v \<longrightarrow>
       map_get (fst (parse_loop buffer (candidate_set candidates) i m acc)) k = Some v)
   \<and> parseGroupNicknamesFromExtBuffer buffer candidates
       = foldl store_record [] (accepted_records buffer candidates)
   \<and> map_get (parseGroupNicknamesFromExtBuffer buffer candidates) key
       = map_option snd (find (key_of_record key) (accepted_records buffer candidates))"
proof -
  let ?cs = "candidate_set candidates"
  have keep: "\<forall>i m acc k v. map_get m k = Some v \<longrightarrow>
       map_get (fst (parse_loop buffer ?cs i m acc)) k = Some v"
  proof (intro allI impI)
    fix i m acc k v
    assume v: "map_get m k = Some v"
    obtain new where "parse_loop buffer ?cs i m acc = (foldl store_record m new, acc @ new)"
      using parse_loop_fold by blast
    then have "map_get (fst (parse_loop buffer ?cs i m acc)) k = map_of (foldl store_record m new) k"
      by (simp add: map_get_def)
    also have "\<dots> = Some v"
      using v by (simp add: map_of_foldl_store_record map_get_def)
    finally show "map_get (fst (parse_loop buffer ?cs i m acc)) k = Some v" .
  qed
  obtain new where new: "parse_loop buffer ?cs 0 [] [] = (foldl store_record [] new, [] @ new)"
    using parse_loop_fold by blast
  have emp: "buffer = [] \<Longrightarrow> parse_loop buffer ?cs 0 [] [] = ([], [])"
    by (subst parse_loop.simps) simp
  have tab: "parseGroupNicknamesFromExtBuffer buffer candidates
       = foldl store_record [] (accepted_records buffer candidates)"
  proof (cases "buffer = []")
    case True
    from emp [OF True] True show ?thesis
      by (simp add: parseGroupNicknamesFromExtBuffer_def accepted_records_def)
  next
    case False
    then show ?thesis
      by (simp add: parseGroupNicknamesFromExtBuffer_def accepted_records_def new)
  qed
  have look: "map_get (parseGroupNicknamesFromExtBuffer buffer candidates) key
       = map_option snd (find (key_of_record key) (accepted_records buffer candidates))"
    unfolding tab by (simp add: map_get_def map_of_foldl_store_record)
  from keep tab look show ?thesis by (intro conjI)
qed

theorem parse_first_record_wins_witness:
  "accepted_records twice_blob [] = [(lit ''Abcd'', lit ''Bob1''), (lit ''abcd'', lit ''Eve2'')]
   \<and> map_get (parseGroupNicknamesFromExtBuffer twice_blob []) (lit ''abcd'') = Some (lit ''Bob1'')
   \<and> map_get (parseGroupNicknamesFromExtBuffer twice_blob []) (lit ''Abcd'') = Some (lit ''Bob1'')
   \<and> accepted_records kelvin_blob [kelvin_candidate] = [(lit ''kabc'', lit ''Bob1'')]
   \<and> map_get (parseGroupNicknamesFromExtBuffer kelvin_blob [kelvin_candidate]) (lit ''kabc'')
       = Some (lit ''Bob1'')"
proof -
  have c: "accepted_records kelvin_blob [kelvin_candidate] = [(lit ''kabc'', lit ''Bob1'')]"
    by code_simp
  have f3: "map_option snd (find (key_of_record (lit ''kabc'')) [(lit ''kabc'', lit ''Bob1'')])
              = Some (lit ''Bob1'')"
    by code_simp
  note t3 = parse_first_record_wins [of kelvin_blob "[kelvin_candidate]" "lit ''kabc''",
              THEN conjunct2, THEN conjunct2]
  have a: "accepted_records twice_blob [] = [(lit ''Abcd'', lit ''Bob1''), (lit ''abcd'', lit ''Eve2'')]"
    by code_simp
  have f1: "map_option snd (find (key_of_record (lit ''abcd''))
              [(lit ''Abcd'', lit ''Bob1''), (lit ''abcd'', lit ''Eve2'')]) = Some (lit ''Bob1'')"
    by code_simp
  have f2: "map_option snd (find (key_of_record (lit ''Abcd''))
              [(lit ''Abcd'', lit ''Bob1''), (lit ''abcd'', lit ''Eve2'')]) = Some (lit ''Bob1'')"
    by code_simp
  note t1 = parse_first_record_wins [of twice_blob "[]" "lit ''abcd''", THEN conjunct2, THEN conjunct2]
  note t2 = parse_first_record_wins [of twice_blob "[]" "lit ''Abcd''", THEN conjunct2, THEN conjunct2]
  from a t1 [unfolded a f1] t2 [unfolded a f2] c t3 [unfolded c f3] show ?thesis by (intro conjI)
qed

section \<open>Properties of candidate resolution\<close>

lemma scan_entries_count:
  "matched \<le> 1 \<Longrightarrow>
   scan_entries lower entries found matched =
     (let us = filter (usable_match lower) entries
      in if matched + length us > 1 then ReturnEmpty
         else Scanned (if us = [] then found else normalizeGroupNickname (snd (last us)))
                (matched + length us))"
proof (induction entries arbitrary: found matched)
  case Nil
  then show ?case by simp
next
  case (Cons entry entries)
  show ?case
  proof (cases "usable_match lower entry")
    case False
    then have "scan_entries lower (entry # entries) found matched
               = scan_entries lower entries found matched"
      by (auto simp: usable_match_def Let_def)
    with False Cons.prems show ?thesis by (simp add: Cons.IH)
  next
    case True
    then have k: "toLowerCase (fst entry) = lower"
      and n: "normalizeGroupNickname (snd entry) \<noteq> []"
      by (simp_all add: usable_match_def)
    show ?thesis
    proof (cases "matched = 0")
      case False
      then have "scan_entries lower (entry # entries) found matched = ReturnEmpty"
        using k n by (simp add: Let_def)
      with False True Cons.prems show ?thesis by (simp add: Let_def)
    next
      case z: True
      have "scan_entries lower (entry # entries) found matched
            = scan_entries lower entries (normalizeGroupNickname (snd entry)) 1"
        using k n z by (simp add: Let_def)
      with True z show ?thesis
        by (simp add: Cons.IH Let_def)
    qed
  qed
qed

lemma scan_entries_cases:
  "scan_entries (toLowerCase ident) m [] 0 =
     (case usable_matches m ident of
        [] \<Rightarrow> Scanned [] 0
      | [e] \<Rightarrow> Scanned (normalizeGroupNickname (snd e)) 1
      | _ \<Rightarrow> ReturnEmpty)"
  by (simp add: scan_entries_count usable_matches_def Let_def split: list.splits)

lemma usable_matches_nonempty_nick:
  "usable_matches m ident = [e] \<Longrightarrow> normalizeGroupNickname (snd e) \<noteq> []"
proof -
  assume "usable_matches m ident = [e]"
  then have "e \<in> set (filter (usable_match (toLowerCase ident)) m)"
    by (simp add: usable_matches_def)
  then show ?thesis by (simp add: usable_match_def)
qed

lemma fallback_loop_first:
  "fallback_loop m ids =
     (case find (has_usable_match m) ids of
        None \<Rightarrow> []
      | Some ident \<Rightarrow>
          (case usable_matches m ident of
             [e] \<Rightarrow> normalizeGroupNickname (snd e)
           | _ \<Rightarrow> []))"
proof (induction ids)
  case Nil
  show ?case by simp
next
  case (Cons ident ids)
  show ?case
  proof (cases "usable_matches m ident")
    case Nil
    then show ?thesis
      by (simp add: scan_entries_cases has_usable_match_def Cons.IH)
  next
    case (Cons e es)
    show ?thesis
    proof (cases es)
      case Nil
      with Cons have u: "usable_matches m ident = [e]" by simp
      from usable_matches_nonempty_nick [OF u] u show ?thesis
        by (simp add: scan_entries_cases has_usable_match_def)
    next
      case (Cons e' es')
      with \<open>usable_matches m ident = e # es\<close> show ?thesis
        by (simp add: scan_entries_cases has_usable_match_def)
    qed
  qed
qed

lemma exact_loop_None:
  "\<forall>ident \<in> set ids. normalizeGroupNickname (or_empty (map_get m ident)) = [] \<Longrightarrow>
   exact_loop m ids = None"
  by (induction ids) (simp_all add: Let_def)

text \<open>
  Claim C5, as the code has it. When no candidate has an entry of its own with a
  nickname that is not empty once normalized, the candidates are tried in order, and for
  each the entries are counted whose key equals it case-insensitively and whose
  normalized nickname is not empty. The first candidate with such an entry decides: with
  exactly one, that entry's normalized nickname is returned; with more than one, the
  empty string. With no such entry for any candidate, the empty string is returned.
\<close>

theorem resolve_fallback:
  assumes "\<forall>ident \<in> set (buildIdCandidates candidates).
             normalizeGroupNickname (or_empty (map_get m ident)) = []"
  shows "resolveGroupNicknameByCandidates m candidates =
     (case find (has_usable_match m) (buildIdCandidates candidates) of
        None \<Rightarrow> []
      | Some ident \<Rightarrow>
          (case usable_matches m ident of
             [e] \<Rightarrow> normalizeGroupNickname (snd e)
           | _ \<Rightarrow> []))"
proof (cases "buildIdCandidates candidates = []")
  case True
  then show ?thesis by (simp add: resolveGroupNicknameByCandidates_def)
next
  case False
  then show ?thesis
    by (simp add: resolveGroupNicknameByCandidates_def exact_loop_None [OF assms]
          fallback_loop_first)
qed

text \<open>
  Claim C5 as stated fails in two ways. An entry whose nickname normalizes to the empty
  string is not counted: for the candidate \<open>bc\<close>, two entries of \<open>junk_table\<close> match
  case-insensitively, and \<open>Bob\<close> is returned. And a second match ends the lookup only
  for the candidate that is being tried: \<open>ABCD\<close> has one match in \<open>member_table\<close> and its
  nickname is returned, though the later candidate \<open>EFGH\<close> has two.
\<close>

theorem resolve_counterexample:
  "map_get junk_table (lit ''bc'') = None
   \<and> length (key_matches junk_table (lit ''bc'')) = 2
   \<and> resolveGroupNicknameByCandidates junk_table [lit ''bc''] = lit ''Bob''
   \<and> map_get member_table (lit ''ABCD'') = None
   \<and> map_get member_table (lit ''EFGH'') = None
   \<and> length (usable_matches member_table (lit ''EFGH'')) = 2
   \<and> resolveGroupNicknameByCandidates member_table [lit ''ABCD'', lit ''EFGH''] = lit ''Ann''"
proof -
  have a: "map_get junk_table (lit ''bc'') = None" by code_simp
  have b: "length (key_matches junk_table (lit ''bc'')) = 2" by code_simp
  have c: "resolveGroupNicknameByCandidates junk_table [lit ''bc''] = lit ''Bob''" by code_simp
  have d: "map_get member_table (lit ''ABCD'') = None" by code_simp
  have e: "map_get member_table (lit ''EFGH'') = None" by code_simp
  have f: "length (usable_matches member_table (lit ''EFGH'')) = 2" by code_simp
  have g: "resolveGroupNicknameByCandidates member_table [lit ''ABCD'', lit ''EFGH''] = lit ''Ann''"
    by code_simp
  from a b c d e f g show ?thesis by (intro conjI)
qed

theorem resolve_fallback_witness:
  "buildIdCandidates [lit '' wxid_ab ''] = [lit ''wxid_ab'']
   \<and> normalizeGroupNickname (or_empty (map_get single_table (lit ''wxid_ab''))) = []
   \<and> usable_matches single_table (lit ''wxid_ab'') = [(lit ''Wxid_Ab'', lit ''Nick'')]
   \<and> resolveGroupNicknameByCandidates single_table [lit '' wxid_ab ''] = lit ''Nick''
   \<and> buildIdCandidates [accent_candidate] = [[0xE9, 0x61]]
   \<and> normalizeGroupNickname (or_empty (map_get accent_table [0xE9, 0x61])) = []
   \<and> usable_matches accent_table [0xE9, 0x61] = [([0xC9, 0x61], lit ''Bob'')]
   \<and> resolveGroupNicknameByCandidates accent_table [accent_candidate] = lit ''Bob''"
proof -
  have b': "buildIdCandidates [accent_candidate] = [[0xE9, 0x61]]" by code_simp
  have n': "normalizeGroupNickname (or_empty (map_get accent_table [0xE9, 0x61])) = []"
    by code_simp
  have h': "\<forall>ident \<in> set (buildIdCandidates [accent_candidate]).
             normalizeGroupNickname (or_empty (map_get accent_table ident)) = []"
    unfolding b' using n' by simp
  have u': "usable_matches accent_table [0xE9, 0x61] = [([0xC9, 0x61], lit ''Bob'')]"
    by code_simp
  have k': "normalizeGroupNickname (lit ''Bob'') = lit ''Bob''" by code_simp
  have f': "find (has_usable_match accent_table) (buildIdCandidates [accent_candidate])
             = Some [0xE9, 0x61]"
    by code_simp
  have r': "resolveGroupNicknameByCandidates accent_table [accent_candidate] = lit ''Bob''"
    unfolding resolve_fallback [OF h'] f' by (simp add: u' k')
  have b: "buildIdCandidates [lit '' wxid_ab ''] = [lit ''wxid_ab'']" by code_simp
  have n: "normalizeGroupNickname (or_empty (map_get single_table (lit ''wxid_ab''))) = []"
    by code_simp
  have h: "\<forall>ident \<in> set (buildIdCandidates [lit '' wxid_ab '']).
             normalizeGroupNickname (or_empty (map_get single_table ident)) = []"
    unfolding b using n by simp
  have u: "usable_matches single_table (lit ''wxid_ab'') = [(lit ''Wxid_Ab'', lit ''Nick'')]"
    by code_simp
  have k: "normalizeGroupNickname (lit ''Nick'') = lit ''Nick''" by code_simp
  have r: "resolveGroupNicknameByCandidates single_table [lit '' wxid_ab ''] = lit ''Nick''"
    by (subst resolve_fallback [OF h]) (simp add: b has_usable_match_def u k)
  from b n u r b' n' u' r' show ?thesis by (intro conjI)
qed

end
